theory Spec2Isabelle
  imports Main "HOL-Library.Word"
begin

text \<open>
  A shallow embedding of the intent API of the Porto multisig coordinator: the in-memory
  store (\<open>api/_lib/store.ts\<close>), the three route handlers that create an intent, collect
  its signatures and submit it, and the external key hash of \<open>lib\<close>. Each handler is a
  function of the environment of the request (the chain as the RPC client shows it, the
  relayer, the clock) and of the store, and returns its response with the store it leaves.
\<close>

section \<open>Hex strings\<close>

text \<open>
  The routes handle every chain datum (addresses, hashes, signatures) as a viem \<open>Hex\<close>
  string: the characters \<open>0x\<close> followed by hex digits. The handlers compare and slice
  these strings as strings, so the model keeps them as strings. JavaScript counts UTF-16
  code units and HOL counts bytes; on the ASCII strings that hex data are, the two agree.
\<close>

type_synonym hex = string

text \<open>\<open>String.prototype.toLowerCase\<close>, on ASCII letters.\<close>

definition toLowerChar :: "char \<Rightarrow> char" where
  "toLowerChar c =
     (case map_of (zip ''ABCDEFGHIJKLMNOPQRSTUVWXYZ'' ''abcdefghijklmnopqrstuvwxyz'') c of
        Some d \<Rightarrow> d
      | None \<Rightarrow> c)"

definition toLowerCase :: "string \<Rightarrow> string" where
  "toLowerCase s = map toLowerChar s"

text \<open>\<open>s.startsWith(p)\<close>.\<close>

definition startsWith :: "string \<Rightarrow> string \<Rightarrow> bool" where
  "startsWith p s = (take (length p) s = p)"

text \<open>
  \<open>s.slice(-2)\<close> and \<open>s.slice(0, -2)\<close>: the last two characters and everything before
  them; on a string shorter than two characters the first is the whole string and the
  second is empty, which is what the truncating subtraction gives.
\<close>

definition sliceLast2 :: "string \<Rightarrow> string" where
  "sliceLast2 s = drop (length s - 2) s"

definition sliceButLast2 :: "string \<Rightarrow> string" where
  "sliceButLast2 s = take (length s - 2) s"

section \<open>The intent store (\<open>api/_lib/store.ts\<close>)\<close>

record Call =
  call_to :: hex
  call_value :: int
  call_data :: hex

record StoredSignature =
  ownerKeyHash :: hex
  sig :: hex
  at :: nat

datatype Status = Collecting | Submitted | Confirmed | Failed

record Intent =
  intent_id :: string
  account :: hex
  chainId :: nat
  externalKeyHash :: hex
  seqKey :: nat
  nonce :: nat
  digest :: hex
  calls :: "Call list"
  threshold :: nat
  owners :: "hex list"
  signatures :: "StoredSignature list"
  status :: Status
  txHash :: "hex option"

type_synonym DB = "string \<rightharpoonup> Intent"

definition upsertIntent :: "Intent \<Rightarrow> DB \<Rightarrow> DB" where
  "upsertIntent i db = db(intent_id i \<mapsto> i)"

definition getIntent :: "DB \<Rightarrow> string \<Rightarrow> Intent option" where
  "getIntent db k = db k"

text \<open>
  \<open>setIntent(id, patch)\<close> merges a patch into the stored record and does nothing when the
  identifier is unknown. The patch is the function that overwrites the patched fields.
\<close>

definition setIntent :: "string \<Rightarrow> (Intent \<Rightarrow> Intent) \<Rightarrow> DB \<Rightarrow> DB" where
  "setIntent k patch db = (case db k of None \<Rightarrow> db | Some now \<Rightarrow> db(k \<mapsto> patch now))"

text \<open>Every record is stored under its own identifier (what \<open>upsertIntent\<close> establishes).\<close>

definition store_ok :: "DB \<Rightarrow> bool" where
  "store_ok db = (\<forall>k i. db k = Some i \<longrightarrow> intent_id i = k)"

section \<open>The environment of a request\<close>

text \<open>
  A handler reads the chain through \<open>publicClient.readContract\<close>, sends through
  \<open>walletClient.writeContract\<close>, and draws an identifier and a timestamp. Each read is a
  function of its arguments that returns \<open>None\<close> when the call throws. The relayer is absent
  when \<open>RELAYER_PRIVATE_KEY\<close> is not set.
\<close>

datatype SendResult = SendThrows "string option" | Sent hex

datatype ReceiptStatus = Success | Reverted

record Env =
  getConfig :: "hex \<Rightarrow> hex \<Rightarrow> hex \<Rightarrow> (nat \<times> hex list) option"
  getNonce :: "hex \<Rightarrow> nat \<Rightarrow> nat option"
  computeDigest :: "hex \<Rightarrow> Call list \<Rightarrow> nat \<Rightarrow> hex option"
  unwrapAndValidateSignature :: "hex \<Rightarrow> hex \<Rightarrow> hex \<Rightarrow> (bool \<times> hex) option"
  walletClient :: "(hex \<Rightarrow> hex \<Rightarrow> hex \<Rightarrow> SendResult) option"
  waitForTransactionReceipt :: "hex \<Rightarrow> (string option + ReceiptStatus)"
  randomUUID :: string
  now :: nat

section \<open>Signature validation and collection (the sign route)\<close>

record Checked =
  res_ok :: bool
  res_ownerKh :: hex
  res_sig :: hex

text \<open>\<open>tryOnce\<close>: one call of the account's verification entry point; a throw is "not ok".\<close>

definition tryOnce :: "Env \<Rightarrow> hex \<Rightarrow> hex \<Rightarrow> hex \<Rightarrow> Checked" where
  "tryOnce env acct dig s =
     (case unwrapAndValidateSignature env acct dig s of
        Some (ok, ownerKh) \<Rightarrow> \<lparr>res_ok = ok, res_ownerKh = ownerKh, res_sig = s\<rparr>
      | None \<Rightarrow> \<lparr>res_ok = False, res_ownerKh = ''0x'', res_sig = s\<rparr>)"

text \<open>The variant tried second: the lower-cased string with its last two characters replaced.\<close>

definition flipped :: "hex \<Rightarrow> hex" where
  "flipped wrapped =
     (let hex = toLowerCase wrapped;
          last2 = sliceLast2 hex;
          flippedLast2 = (if last2 = ''01'' then ''00'' else ''01'')
      in sliceButLast2 hex @ flippedLast2)"

text \<open>
  \<open>validateWrappedSignature\<close>. The second component of the result lists the signatures
  that were passed to the verification entry point, in order.
\<close>

definition validateWrappedSignature :: "Env \<Rightarrow> hex \<Rightarrow> hex \<Rightarrow> hex \<Rightarrow> Checked \<times> hex list" where
  "validateWrappedSignature env acct dig wrapped =
     (let res = tryOnce env acct dig wrapped in
      if res_ok res then (res, [wrapped])
      else
        let hex = toLowerCase wrapped in
        if \<not> startsWith ''0x'' hex \<or> length hex < 2 + 64 + 64 + 64 + 2 then (res, [wrapped])
        else
          let res2 = tryOnce env acct dig (flipped wrapped) in
          if res_ok res2 then (res2, [wrapped, flipped wrapped])
          else (res, [wrapped, flipped wrapped]))"

datatype SignResponse =
    SignNotFound
  | MissingWrappedSignature
  | DigestMismatch
  | InvalidSignature
  | SignerNotAuthorized
  | SignOk nat nat "bool option"

text \<open>
  The defensive digest check of the sign route: a mismatch is reported only when the
  recomputation returns a digest that differs, ignoring case; a read that throws is logged
  and the handler goes on.
\<close>

definition digestMismatch :: "Env \<Rightarrow> Intent \<Rightarrow> bool" where
  "digestMismatch env intent =
     (case computeDigest env (account intent) (calls intent) (nonce intent) of
        None \<Rightarrow> False
      | Some onChainDigest \<Rightarrow> toLowerCase onChainDigest \<noteq> toLowerCase (digest intent))"

text \<open>
  \<open>POST /api/intents/[id]/sign\<close>. An absent or empty \<open>wrappedSignature\<close> is the empty
  string here (both are falsy). \<open>SignOk k M ready\<close> is the success response; the duplicate
  branch sends no \<open>ready\<close> field. The handler pushes onto the array of the record it looked
  up and then patches the record stored under \<open>intent.id\<close> with the same array.
\<close>

definition sign_POST :: "Env \<Rightarrow> DB \<Rightarrow> string \<Rightarrow> hex \<Rightarrow> SignResponse \<times> DB" where
  "sign_POST env db k wrappedSignature =
     (case getIntent db k of
        None \<Rightarrow> (SignNotFound, db)
      | Some intent \<Rightarrow>
          if wrappedSignature = [] then (MissingWrappedSignature, db)
          else if digestMismatch env intent then (DigestMismatch, db)
          else
            let checked = fst (validateWrappedSignature env (account intent) (digest intent)
                                 wrappedSignature) in
            if \<not> res_ok checked then (InvalidSignature, db)
            else
              let okh = res_ownerKh checked in
              if \<not> list_ex (\<lambda>kh. toLowerCase kh = toLowerCase okh) (owners intent)
              then (SignerNotAuthorized, db)
              else if list_ex (\<lambda>s. toLowerCase (ownerKeyHash s) = toLowerCase okh)
                        (signatures intent)
              then (SignOk (length (signatures intent)) (threshold intent) None, db)
              else
                let sigs = signatures intent @
                             [\<lparr>ownerKeyHash = okh, sig = res_sig checked, at = now env\<rparr>];
                    pushed = db(k \<mapsto> intent\<lparr>signatures := sigs\<rparr>);
                    db' = setIntent (intent_id intent) (\<lambda>i. i\<lparr>signatures := sigs\<rparr>) pushed
                in (SignOk (length sigs) (threshold intent) (Some (threshold intent \<le> length sigs)),
                    db'))"

section \<open>Byte strings and ABI encoding\<close>

text \<open>
  The submit route and the key helpers hand their hex strings to viem
  (\<open>concatHex\<close>, \<open>toHex\<close>, \<open>encodeAbiParameters\<close>, \<open>keccak256\<close>), a library outside the
  repository. The model follows what these functions do with the strings. A hex string
  denotes a byte string when it is \<open>0x\<close> followed by an even number of hex digits of
  either case. The statements read the bytes of such a string with \<open>hexToBytes\<close>, which
  is \<open>None\<close> on every other string; \<open>bytesToHex\<close> writes bytes in lower-case digits, as
  \<open>toHex\<close> does.
\<close>

type_synonym byte = "8 word"

definition nibble :: "char \<Rightarrow> nat option" where
  "nibble c =
     map_of (zip ''0123456789abcdefABCDEF''
               [0, 1, 2, 3, 4, 5, 6, 7, 8, 9, 10, 11, 12, 13, 14, 15, 10, 11, 12, 13, 14, 15]) c"

definition isHexBytes :: "hex \<Rightarrow> bool" where
  "isHexBytes h =
     (take 2 h = ''0x'' \<and> even (length h) \<and> list_all (\<lambda>c. nibble c \<noteq> None) (drop 2 h))"

definition nibbleValue :: "char \<Rightarrow> nat" where
  "nibbleValue c = (case nibble c of Some n \<Rightarrow> n | None \<Rightarrow> 0)"

fun digitsBytes :: "string \<Rightarrow> byte list" where
  "digitsBytes (a # b # cs) = of_nat (16 * nibbleValue a + nibbleValue b) # digitsBytes cs"
| "digitsBytes cs = []"

definition hexBytes :: "hex \<Rightarrow> byte list" where
  "hexBytes h = digitsBytes (drop 2 h)"

definition hexToBytes :: "hex \<Rightarrow> byte list option" where
  "hexToBytes h = (if isHexBytes h then Some (hexBytes h) else None)"

definition hexDigits :: string where
  "hexDigits = ''0123456789abcdef''"

definition byteHex :: "byte \<Rightarrow> string" where
  "byteHex b = [hexDigits ! (unat b div 16), hexDigits ! (unat b mod 16)]"

definition bytesToHex :: "byte list \<Rightarrow> hex" where
  "bytesToHex bs = ''0x'' @ concat (map byteHex bs)"

text \<open>Big-endian bytes of a number, \<open>k\<close> bytes wide; \<open>u256\<close> is one ABI word.\<close>

fun be_bytes :: "nat \<Rightarrow> nat \<Rightarrow> byte list" where
  "be_bytes 0 n = []"
| "be_bytes (Suc k) n = be_bytes k (n div 256) @ [of_nat (n mod 256)]"

definition u256 :: "nat \<Rightarrow> byte list" where
  "u256 n = be_bytes 32 n"

text \<open>
  The contract ABI encoding, on bytes. A dynamic \<open>bytes\<close> item is its length followed by
  the data, zero-padded on the right to a multiple of 32 bytes. A sequence of dynamic
  items (the members of a tuple or the elements of an array) is one offset word per item,
  counted from the start of the sequence, followed by the items; an array puts its length
  in front.
\<close>

definition pad_right32 :: "byte list \<Rightarrow> byte list" where
  "pad_right32 bs = bs @ replicate ((32 - length bs mod 32) mod 32) 0"

definition abi_bytes :: "byte list \<Rightarrow> byte list" where
  "abi_bytes bs = u256 (length bs) @ pad_right32 bs"

fun abi_offsets :: "nat \<Rightarrow> byte list list \<Rightarrow> byte list" where
  "abi_offsets off [] = []"
| "abi_offsets off (t # ts) = u256 off @ abi_offsets (off + length t) ts"

definition abi_dyn_seq :: "byte list list \<Rightarrow> byte list" where
  "abi_dyn_seq items = abi_offsets (32 * length items) items @ concat items"

definition abi_dyn_array :: "byte list list \<Rightarrow> byte list" where
  "abi_dyn_array items = u256 (length items) @ abi_dyn_seq items"

text \<open>The tuple \<open>(address, uint256, bytes)\<close> of a call: two static words, then the
  offset of the data (three words in), then the data.\<close>

definition abi_call :: "byte list \<Rightarrow> nat \<Rightarrow> byte list \<Rightarrow> byte list" where
  "abi_call to20 v callData = replicate 12 0 @ to20 @ u256 v @ u256 96 @ abi_bytes callData"

subsection \<open>The viem functions the routes call\<close>

text \<open>\<open>x.replace('0x', '')\<close> removes the first occurrence of \<open>0x\<close>;
  \<open>concatHex\<close> joins the remainders behind one \<open>0x\<close>.\<close>

fun replace0x :: "string \<Rightarrow> string" where
  "replace0x (a # b # cs) =
     (if a = CHR ''0'' \<and> b = CHR ''x'' then cs else a # replace0x (b # cs))"
| "replace0x cs = cs"

definition concatHex :: "hex list \<Rightarrow> hex" where
  "concatHex xs = ''0x'' @ concat (map replace0x xs)"

text \<open>\<open>toHex(n, { size: 32 })\<close> throws when the number does not fit.\<close>

definition toHex32 :: "nat \<Rightarrow> hex option" where
  "toHex32 n = (if n < 2 ^ 256 then Some (bytesToHex (u256 n)) else None)"

text \<open>
  \<open>encodeAbiParameters\<close> works on the hex strings themselves, and so does the model.
  \<open>size\<close> of a string that starts with \<open>0x\<close> is the number of bytes its digits fill,
  rounded up; of any other string it is the length.
\<close>

definition size_hex :: "hex \<Rightarrow> nat" where
  "size_hex h = (if startsWith ''0x'' h then (length h - 2 + 1) div 2 else length h)"

text \<open>\<open>numberToHex(n, { size: 32 })\<close> of a length or an offset: 64 lower-case digits.
  (The lengths of JavaScript strings stay far below the \<open>2^256\<close> where it would throw.)\<close>

definition hexWord :: "nat \<Rightarrow> hex" where
  "hexWord n = bytesToHex (u256 n)"

text \<open>\<open>padHex(h, { dir: 'right', size })\<close> appends \<open>0\<close> digits and throws when the digits
  are already more than \<open>size\<close> bytes.\<close>

definition padHexRight :: "nat \<Rightarrow> hex \<Rightarrow> hex option" where
  "padHexRight sz h =
     (let hexs = replace0x h
      in if sz * 2 < length hexs then None
         else Some (''0x'' @ hexs @ replicate (sz * 2 - length hexs) (CHR ''0'')))"

text \<open>
  A dynamic \<open>bytes\<close> parameter: the size word, then the string as it is, padded on the
  right to \<open>ceil((length - 2) / 64) * 32\<close> bytes when its size is no multiple of 32.
  The digits keep their case and are not checked.
\<close>

definition encodeBytes :: "hex \<Rightarrow> hex option" where
  "encodeBytes h =
     (let bytesSize = size_hex h
      in map_option (\<lambda>padded. concatHex [hexWord bytesSize, padded])
           (if bytesSize mod 32 \<noteq> 0 then padHexRight ((length h + 61) div 64 * 32) h
            else Some h))"

text \<open>
  \<open>encodeParams\<close> on prepared parameters (dynamic flag, encoding): the static part holds
  a static encoding as it is and, for a dynamic one, the offset of its encoding in the
  dynamic part that follows.
\<close>

definition staticSize :: "(bool \<times> hex) list \<Rightarrow> nat" where
  "staticSize ps =
     sum_list (map (\<lambda>(dynamic, encoded). if dynamic then 32 else size_hex encoded) ps)"

fun staticParams :: "nat \<Rightarrow> (bool \<times> hex) list \<Rightarrow> hex list" where
  "staticParams off [] = []"
| "staticParams off ((dynamic, encoded) # ps) =
     (if dynamic then hexWord off # staticParams (off + size_hex encoded) ps
      else encoded # staticParams off ps)"

definition encodeParams :: "(bool \<times> hex) list \<Rightarrow> hex" where
  "encodeParams ps = concatHex (staticParams (staticSize ps) ps @ map snd (filter fst ps))"

text \<open>A dynamic array: the number of elements in front of the encoded elements.\<close>

definition encodeArray :: "(bool \<times> hex) list \<Rightarrow> hex" where
  "encodeArray ps =
     (if ps = [] then hexWord 0 else concatHex [hexWord (length ps), encodeParams ps])"

text \<open>
  An \<open>address\<close> parameter throws unless \<open>isAddress\<close> holds: 40 hex digits behind \<open>0x\<close>
  that are all lower-case or carry the EIP-55 checksum, which upper-cases the digit at
  position \<open>i\<close> when nibble \<open>i\<close> of the hash of the lower-cased digits is 8 or more. The
  hash is the parameter \<open>K\<close>. The encoding is the lower-cased address, padded on the left.
\<close>

definition toUpperChar :: "char \<Rightarrow> char" where
  "toUpperChar c =
     (case map_of (zip ''abcdefghijklmnopqrstuvwxyz'' ''ABCDEFGHIJKLMNOPQRSTUVWXYZ'') c of
        Some d \<Rightarrow> d
      | None \<Rightarrow> c)"

definition addressRegex :: "string \<Rightarrow> bool" where
  "addressRegex a =
     (take 2 a = ''0x'' \<and> length a = 42 \<and> list_all (\<lambda>c. nibble c \<noteq> None) (drop 2 a))"

definition hashNibble :: "byte list \<Rightarrow> nat \<Rightarrow> nat" where
  "hashNibble hash i =
     (if i div 2 < length hash
      then (if even i then unat (hash ! (i div 2)) div 16 else unat (hash ! (i div 2)) mod 16)
      else 0)"

definition checksumAddress :: "(byte list \<Rightarrow> byte list) \<Rightarrow> hex \<Rightarrow> hex" where
  "checksumAddress K a =
     (let hexAddress = toLowerCase (drop 2 a);
          hash = K (map of_char hexAddress)
      in ''0x'' @ map (\<lambda>(i, c). if i < 40 \<and> 8 \<le> hashNibble hash i then toUpperChar c else c)
                    (zip [0..<length hexAddress] hexAddress))"

definition isAddress :: "(byte list \<Rightarrow> byte list) \<Rightarrow> hex \<Rightarrow> bool" where
  "isAddress K a = (addressRegex a \<and> (toLowerCase a = a \<or> checksumAddress K a = a))"

definition encodeAddress :: "(byte list \<Rightarrow> byte list) \<Rightarrow> hex \<Rightarrow> hex option" where
  "encodeAddress K a =
     (if isAddress K a
      then Some (''0x'' @ replicate 24 (CHR ''0'') @ replace0x (toLowerCase a))
      else None)"

text \<open>A \<open>uint256\<close> parameter throws outside its range.\<close>

definition encodeUint256 :: "int \<Rightarrow> hex option" where
  "encodeUint256 v = (if 0 \<le> v \<and> v < 2 ^ 256 then Some (hexWord (nat v)) else None)"

text \<open>The tuple \<open>(address to, uint256, bytes data)\<close> of a call.\<close>

definition encodeCall :: "(byte list \<Rightarrow> byte list) \<Rightarrow> Call \<Rightarrow> hex option" where
  "encodeCall K c =
     (case encodeAddress K (call_to c) of
        None \<Rightarrow> None
      | Some a \<Rightarrow>
         (case encodeUint256 (call_value c) of
            None \<Rightarrow> None
          | Some v \<Rightarrow>
              map_option (\<lambda>d. encodeParams [(False, a), (False, v), (True, d)])
                (encodeBytes (call_data c))))"

text \<open>\<open>encodeAbiParameters([{ type: 'bytes[]' }], [sigs])\<close>.\<close>

definition encodeAbiParameters_bytesArray :: "hex list \<Rightarrow> hex option" where
  "encodeAbiParameters_bytesArray sigs =
     map_option (\<lambda>items. encodeParams [(True, encodeArray (map (Pair True) items))])
       (those (map encodeBytes sigs))"

text \<open>\<open>encodeAbiParameters([{ type: 'tuple[]', components: [address, uint256, bytes] },
  { type: 'bytes' }], [calls, opData])\<close>.\<close>

definition encodeAbiParameters_calls_bytes ::
  "(byte list \<Rightarrow> byte list) \<Rightarrow> Call list \<Rightarrow> hex \<Rightarrow> hex option" where
  "encodeAbiParameters_calls_bytes K cs opData =
     (case those (map (encodeCall K) cs) of
        None \<Rightarrow> None
      | Some items \<Rightarrow>
          map_option
            (\<lambda>od. encodeParams [(True, encodeArray (map (Pair True) items)), (True, od)])
            (encodeBytes opData))"

text \<open>\<open>encodeAbiParameters([{ type: 'tuple[]', ... }], [calls])\<close>.\<close>

definition encodeAbiParameters_calls :: "(byte list \<Rightarrow> byte list) \<Rightarrow> Call list \<Rightarrow> hex option" where
  "encodeAbiParameters_calls K cs =
     map_option (\<lambda>items. encodeParams [(True, encodeArray (map (Pair True) items))])
       (those (map (encodeCall K) cs))"

text \<open>\<open>encodeAbiParameters([{ type: 'uint8' }, { type: 'bytes32' }], [n, h])\<close>: two static
  words, for a hash as \<open>keccak256\<close> returns it (32 bytes in lower-case digits).\<close>

definition encodeAbiParameters_uint8_bytes32 :: "nat \<Rightarrow> hex \<Rightarrow> hex option" where
  "encodeAbiParameters_uint8_bytes32 n h =
     (case hexToBytes h of
        None \<Rightarrow> None
      | Some bs \<Rightarrow> if n < 256 \<and> length bs = 32 then Some (bytesToHex (u256 n @ bs)) else None)"

text \<open>\<open>keccak256\<close> of a hex string, over a hash function on bytes that is a parameter
  of the model.\<close>

definition keccak256 :: "(byte list \<Rightarrow> byte list) \<Rightarrow> hex \<Rightarrow> hex option" where
  "keccak256 K h = map_option (\<lambda>bs. bytesToHex (K bs)) (hexToBytes h)"

section \<open>Submission (the submit route)\<close>

definition MODE_SINGLE_WITH_OPDATA :: hex where
  "MODE_SINGLE_WITH_OPDATA =
     ''0x0100000000007821000100000000000000000000000000000000000000000000''"

definition MODE_SINGLE_NO_OPDATA :: hex where
  "MODE_SINGLE_NO_OPDATA =
     ''0x0100000000000000000000000000000000000000000000000000000000000000''"

text \<open>Steps 1 to 4 of the handler: the payload handed to \<open>execute\<close>.\<close>

definition aggregated :: "Intent \<Rightarrow> hex option" where
  "aggregated intent = encodeAbiParameters_bytesArray (map sig (signatures intent))"

definition outer :: "Intent \<Rightarrow> hex option" where
  "outer intent =
     map_option (\<lambda>agg. concatHex [agg, externalKeyHash intent, ''0x00'']) (aggregated intent)"

definition opData :: "Intent \<Rightarrow> hex option" where
  "opData intent =
     (case outer intent of
        None \<Rightarrow> None
      | Some out \<Rightarrow> map_option (\<lambda>n32. concatHex [n32, out]) (toHex32 (nonce intent)))"

definition executionData :: "(byte list \<Rightarrow> byte list) \<Rightarrow> Intent \<Rightarrow> hex option" where
  "executionData K intent =
     (case opData intent of
        None \<Rightarrow> None
      | Some od \<Rightarrow> encodeAbiParameters_calls_bytes K (calls intent) od)"

datatype SubmitResponse =
    SubmitNotFound
  | RelayerMissing
  | NotEnoughSignatures
  | SubmitThrew
  | NonceMismatch nat nat
  | SubmitFailed string
  | SubmitOk hex ReceiptStatus

record SubmitResult =
  response :: SubmitResponse
  store :: DB
  sent :: "(hex \<times> hex \<times> hex) option"

text \<open>\<open>e?.message ?? 'submit failed'\<close>.\<close>

definition errorMessage :: "string option \<Rightarrow> string" where
  "errorMessage m = (case m of None \<Rightarrow> ''submit failed'' | Some msg \<Rightarrow> msg)"

text \<open>
  \<open>POST /api/intents/[id]/submit\<close>. \<open>sent\<close> records the transaction handed to
  \<open>walletClient.writeContract\<close> (account, mode, payload), if the handler got that far.
  \<open>SubmitThrew\<close> stands for an exception that leaves the handler before its \<open>try\<close> block
  (an encoding or the nonce read failing).
\<close>

definition submit_POST ::
  "(byte list \<Rightarrow> byte list) \<Rightarrow> Env \<Rightarrow> DB \<Rightarrow> string \<Rightarrow> SubmitResult" where
  "submit_POST K env db k =
     (case getIntent db k of
        None \<Rightarrow> \<lparr>response = SubmitNotFound, store = db, sent = None\<rparr>
      | Some intent \<Rightarrow>
         (case walletClient env of
            None \<Rightarrow> \<lparr>response = RelayerMissing, store = db, sent = None\<rparr>
          | Some writeContract \<Rightarrow>
              if length (signatures intent) < threshold intent
              then \<lparr>response = NotEnoughSignatures, store = db, sent = None\<rparr>
              else
               (case executionData K intent of
                  None \<Rightarrow> \<lparr>response = SubmitThrew, store = db, sent = None\<rparr>
                | Some payload \<Rightarrow>
                   (case getNonce env (account intent) 0 of
                      None \<Rightarrow> \<lparr>response = SubmitThrew, store = db, sent = None\<rparr>
                    | Some currentNonce \<Rightarrow>
                        if nonce intent \<noteq> currentNonce
                        then \<lparr>response = NonceMismatch (nonce intent) currentNonce,
                              store = db, sent = None\<rparr>
                        else
                         (case writeContract (account intent) MODE_SINGLE_WITH_OPDATA payload of
                            SendThrows m \<Rightarrow>
                              \<lparr>response = SubmitFailed (errorMessage m),
                               store = setIntent (intent_id intent) (\<lambda>i. i\<lparr>status := Failed\<rparr>) db,
                               sent = Some (account intent, MODE_SINGLE_WITH_OPDATA, payload)\<rparr>
                          | Sent hash \<Rightarrow>
                              let db1 = setIntent (intent_id intent)
                                          (\<lambda>i. i\<lparr>status := Submitted, txHash := Some hash\<rparr>) db
                              in (case waitForTransactionReceipt env hash of
                                    Inl m \<Rightarrow>
                                      \<lparr>response = SubmitFailed (errorMessage m),
                                       store = setIntent (intent_id intent)
                                                 (\<lambda>i. i\<lparr>status := Failed\<rparr>) db1,
                                       sent = Some (account intent, MODE_SINGLE_WITH_OPDATA,
                                                    payload)\<rparr>
                                  | Inr receiptStatus \<Rightarrow>
                                      \<lparr>response = SubmitOk hash receiptStatus,
                                       store = setIntent (intent_id intent)
                                                 (\<lambda>i. i\<lparr>status :=
                                                    (if receiptStatus = Success then Confirmed
                                                     else Failed)\<rparr>) db1,
                                       sent = Some (account intent, MODE_SINGLE_WITH_OPDATA,
                                                    payload)\<rparr>))))))"

section \<open>Intent creation (the intents route)\<close>

text \<open>
  \<open>Number(threshold)\<close> turns the \<open>bigint\<close> read from the chain into a double: exact below
  \<open>2^53\<close>, rounded to 53 significant bits (ties to even) above. Every \<open>uint256\<close> is below
  the range where a double overflows.
\<close>

fun bitLength :: "nat \<Rightarrow> nat" where
  "bitLength n = (if n = 0 then 0 else Suc (bitLength (n div 2)))"

definition Number :: "nat \<Rightarrow> nat" where
  "Number n =
     (if n < 2 ^ 53 then n
      else
        let e = bitLength n - 53;
            q = n div 2 ^ e;
            r = n mod 2 ^ e;
            half = 2 ^ (e - 1)
        in if half < r \<or> (r = half \<and> odd q) then (q + 1) * 2 ^ e else q * 2 ^ e)"

record CreateBody =
  body_account :: hex
  body_chainId :: nat
  body_externalKeyHash :: hex
  body_seqKey :: "nat option"
  body_calls :: "Call list"
  body_multisigAddress :: hex

datatype CreateResponse =
    NoOwnersConfigured
  | CreateThrew
  | Created string hex nat "hex list"

text \<open>
  \<open>POST /api/intents\<close>. The body is taken after \<open>BigInt\<close> has parsed \<open>seqKey\<close> (default
  \<open>'0'\<close>) and the amount of each call. A chain read that throws leaves the handler
  (\<open>CreateThrew\<close>) with the store untouched.
\<close>

definition create_POST :: "Env \<Rightarrow> DB \<Rightarrow> CreateBody \<Rightarrow> CreateResponse \<times> DB" where
  "create_POST env db body =
     (case getConfig env (body_multisigAddress body) (body_account body)
             (body_externalKeyHash body) of
        None \<Rightarrow> (CreateThrew, db)
      | Some (cfgThreshold, ownerKeyHashes) \<Rightarrow>
          if ownerKeyHashes = [] then (NoOwnersConfigured, db)
          else
            let seqKeyBig = (case body_seqKey body of None \<Rightarrow> 0 | Some sk \<Rightarrow> sk) in
            (case getNonce env (body_account body) seqKeyBig of
               None \<Rightarrow> (CreateThrew, db)
             | Some nonceRead \<Rightarrow>
                (case computeDigest env (body_account body) (body_calls body) nonceRead of
                   None \<Rightarrow> (CreateThrew, db)
                 | Some digestRead \<Rightarrow>
                     let intent = \<lparr>intent_id = randomUUID env,
                                   account = body_account body,
                                   chainId = body_chainId body,
                                   externalKeyHash = body_externalKeyHash body,
                                   seqKey = seqKeyBig,
                                   nonce = nonceRead,
                                   digest = digestRead,
                                   calls = body_calls body,
                                   threshold = Number cfgThreshold,
                                   owners = ownerKeyHashes,
                                   signatures = [],
                                   status = Collecting,
                                   txHash = None\<rparr>
                     in (Created (intent_id intent) (digest intent) (threshold intent)
                           (owners intent),
                         upsertIntent intent db))))"

section \<open>The external key hash\<close>

definition externalPublicKey :: "hex \<Rightarrow> hex \<Rightarrow> hex" where
  "externalPublicKey multisig salt12 = concatHex [multisig, salt12]"

definition computeExternalKeyHash :: "(byte list \<Rightarrow> byte list) \<Rightarrow> hex \<Rightarrow> hex \<Rightarrow> hex option" where
  "computeExternalKeyHash K multisig salt12 =
     (let pub = externalPublicKey multisig salt12 in
      case keccak256 K pub of
        None \<Rightarrow> None
      | Some pubHash \<Rightarrow>
         (case encodeAbiParameters_uint8_bytes32 3 pubHash of
            None \<Rightarrow> None
          | Some packed \<Rightarrow> keccak256 K packed))"

text \<open>
  \<open>encodeAuthorizeExternalExecute\<close>. The caller passes the account ABI, and
  \<open>encodeFunctionData\<close> encodes against it; the two encodings it performs are parameters
  here.
\<close>

record Key =
  key_expiry :: nat
  key_keyType :: nat
  key_isSuperAdmin :: bool
  key_publicKey :: hex

record AccountAbi =
  encodeAuthorize :: "Key \<Rightarrow> hex option"
  encodeExecute :: "hex \<Rightarrow> hex \<Rightarrow> hex option"

record AuthorizeCall =
  auth_to :: hex
  auth_data :: hex
  auth_externalKeyHash :: hex

definition encodeAuthorizeExternalExecute ::
  "(byte list \<Rightarrow> byte list) \<Rightarrow> AccountAbi \<Rightarrow> hex \<Rightarrow> hex \<Rightarrow> hex \<Rightarrow> AuthorizeCall option" where
  "encodeAuthorizeExternalExecute K accountAbi acct multisig salt12 =
     (let publicKey = externalPublicKey multisig salt12;
          key = \<lparr>key_expiry = 0, key_keyType = 3, key_isSuperAdmin = False,
                 key_publicKey = publicKey\<rparr>
      in case encodeAuthorize accountAbi key of
           None \<Rightarrow> None
         | Some authorizeData \<Rightarrow>
            (case encodeAbiParameters_calls K
                    [\<lparr>call_to = ''0x0000000000000000000000000000000000000000'',
                      call_value = 0, call_data = authorizeData\<rparr>] of
               None \<Rightarrow> None
             | Some callsEncoded \<Rightarrow>
                (case encodeExecute accountAbi MODE_SINGLE_NO_OPDATA callsEncoded of
                   None \<Rightarrow> None
                 | Some d \<Rightarrow>
                    (case computeExternalKeyHash K multisig salt12 of
                       None \<Rightarrow> None
                     | Some h \<Rightarrow>
                         Some \<lparr>auth_to = acct, auth_data = d, auth_externalKeyHash = h\<rparr>))))"

section \<open>The payload as the specification words it\<close>

text \<open>
  The signatures, in order, as an ABI \<open>bytes[]\<close>; the policy key identifier and one zero
  byte behind it; the 32-byte nonce in front; the call list and that blob as an ABI tuple.
\<close>

definition spec_aggregated :: "byte list list \<Rightarrow> byte list" where
  "spec_aggregated sigs = abi_dyn_seq [abi_dyn_array (map abi_bytes sigs)]"

definition spec_outer :: "byte list list \<Rightarrow> byte list \<Rightarrow> byte list" where
  "spec_outer sigs keyId = spec_aggregated sigs @ keyId @ [0]"

definition spec_opData :: "nat \<Rightarrow> byte list list \<Rightarrow> byte list \<Rightarrow> byte list" where
  "spec_opData n sigs keyId = u256 n @ spec_outer sigs keyId"

definition spec_executionData ::
  "(byte list \<times> nat \<times> byte list) list \<Rightarrow> nat \<Rightarrow> byte list list \<Rightarrow> byte list \<Rightarrow> byte list" where
  "spec_executionData cs n sigs keyId =
     abi_dyn_seq [abi_dyn_array (map (\<lambda>(to20, v, d). abi_call to20 v d) cs),
                  abi_bytes (spec_opData n sigs keyId)]"

text \<open>The key identifier as the specification words it: the hash of the discriminant
  (one ABI word) followed by the hash of policy address and salt.\<close>

definition spec_externalKeyHash :: "(byte list \<Rightarrow> byte list) \<Rightarrow> byte list \<Rightarrow> byte list \<Rightarrow> byte list" where
  "spec_externalKeyHash K policy salt = K (u256 3 @ K (policy @ salt))"

section \<open>Predicates used in the statements\<close>

text \<open>The two membership tests of the sign route, by name.\<close>

definition authorized :: "Intent \<Rightarrow> hex \<Rightarrow> bool" where
  "authorized i okh = list_ex (\<lambda>kh. toLowerCase kh = toLowerCase okh) (owners i)"

definition alreadySigned :: "Intent \<Rightarrow> hex \<Rightarrow> bool" where
  "alreadySigned i okh = list_ex (\<lambda>s. toLowerCase (ownerKeyHash s) = toLowerCase okh) (signatures i)"

text \<open>The signature list after the handler has pushed the checked signature.\<close>

definition appended :: "Env \<Rightarrow> Intent \<Rightarrow> hex \<Rightarrow> StoredSignature list" where
  "appended env i w =
     signatures i @
       [\<lparr>ownerKeyHash = res_ownerKh (fst (validateWrappedSignature env (account i) (digest i) w)),
         sig = res_sig (fst (validateWrappedSignature env (account i) (digest i) w)),
         at = now env\<rparr>]"

text \<open>
  A stored signature is validated when the account's verification entry point accepts
  its bytes for the intent's digest and names its owner.
\<close>

definition validated :: "Env \<Rightarrow> Intent \<Rightarrow> StoredSignature \<Rightarrow> bool" where
  "validated env i s =
     (unwrapAndValidateSignature env (account i) (digest i) (sig s) = Some (True, ownerKeyHash s))"

definition all_validated :: "Env \<Rightarrow> DB \<Rightarrow> bool" where
  "all_validated env db = (\<forall>k i. db k = Some i \<longrightarrow> list_all (validated env i) (signatures i))"

text \<open>
  Well-formed records: every signature, the policy key identifier and the data of every
  call denote bytes (\<open>0x\<close> and an even number of hex digits), the key identifier has 32
  bytes, every call target is an address \<open>isAddress\<close> accepts, and the amounts and the
  nonce fit a \<open>uint256\<close>. The conditions on targets, amounts and nonce are the ones the
  encoders check themselves: where one fails they throw and no payload is built.
\<close>

definition wf_call :: "(byte list \<Rightarrow> byte list) \<Rightarrow> Call \<Rightarrow> bool" where
  "wf_call K c =
     (isAddress K (call_to c) \<and>
      0 \<le> call_value c \<and> call_value c < 2 ^ 256 \<and> isHexBytes (call_data c))"

definition call_bytes :: "Call \<Rightarrow> byte list \<times> nat \<times> byte list" where
  "call_bytes c = (hexBytes (call_to c), nat (call_value c), hexBytes (call_data c))"

definition wf_intent :: "(byte list \<Rightarrow> byte list) \<Rightarrow> Intent \<Rightarrow> bool" where
  "wf_intent K i =
     (list_all (\<lambda>s. isHexBytes (sig s)) (signatures i) \<and>
      isHexBytes (externalKeyHash i) \<and> length (hexBytes (externalKeyHash i)) = 32 \<and>
      nonce i < 2 ^ 256 \<and> list_all (wf_call K) (calls i))"

definition spec_payload :: "Intent \<Rightarrow> byte list" where
  "spec_payload i =
     spec_executionData (map call_bytes (calls i)) (nonce i)
       (map (\<lambda>s. hexBytes (sig s)) (signatures i)) (hexBytes (externalKeyHash i))"

section \<open>A worked example\<close>

text \<open>
  The scenario of the specification: an account with a 2-of-3 policy, owners \<open>A\<close>, \<open>B\<close>,
  \<open>C\<close>, one call transferring 5, the nonce of sequence 0 at 7. \<open>D\<close> is a valid signer
  outside the policy. The long signature validates only with its last byte set to \<open>01\<close>.
\<close>

definition ex_account :: hex where
  "ex_account = ''0x00000000000000000000000000000000000000aa''"

definition ex_ownerA :: hex where
  "ex_ownerA = ''0x00000000000000000000000000000000000000000000000000000000000000a1''"

definition ex_ownerB :: hex where
  "ex_ownerB = ''0x00000000000000000000000000000000000000000000000000000000000000b2''"

definition ex_ownerC :: hex where
  "ex_ownerC = ''0x00000000000000000000000000000000000000000000000000000000000000c3''"

definition ex_ownerD :: hex where
  "ex_ownerD = ''0x00000000000000000000000000000000000000000000000000000000000000d4''"

definition ex_digest :: hex where
  "ex_digest = ''0x1111111111111111111111111111111111111111111111111111111111111111''"

definition ex_keyHash :: hex where
  "ex_keyHash = ''0x2222222222222222222222222222222222222222222222222222222222222222''"

definition ex_txHash :: hex where
  "ex_txHash = ''0x3333333333333333333333333333333333333333333333333333333333333333''"

definition ex_sigA :: hex where "ex_sigA = ''0x0a0a00''"

definition ex_sigB :: hex where "ex_sigB = ''0x0b0b00''"

definition ex_sigD :: hex where "ex_sigD = ''0x0d0d00''"

definition ex_sigLong00 :: hex where "ex_sigLong00 = (''0x'' @ replicate 192 (CHR ''c'')) @ ''00''"

definition ex_sigLong01 :: hex where "ex_sigLong01 = (''0x'' @ replicate 192 (CHR ''c'')) @ ''01''"

definition ex_validate :: "hex \<Rightarrow> hex \<Rightarrow> hex \<Rightarrow> (bool \<times> hex) option" where
  "ex_validate acct dig s =
     (if s = ex_sigA then Some (True, ex_ownerA)
      else if s = ex_sigB then Some (True, ex_ownerB)
      else if s = ex_sigD then Some (True, ex_ownerD)
      else if s = ex_sigLong01 then Some (True, ex_ownerC)
      else None)"

definition ex_env :: Env where
  "ex_env = \<lparr>getConfig = (\<lambda>m a k. Some (2, [ex_ownerA, ex_ownerB, ex_ownerC])),
             getNonce = (\<lambda>a k. Some (if k = 0 then 7 else 18446744073709551616 * k)),
             computeDigest = (\<lambda>a cs n. Some ex_digest),
             unwrapAndValidateSignature = ex_validate,
             walletClient = Some (\<lambda>a m d. Sent ex_txHash),
             waitForTransactionReceipt = (\<lambda>h. Inr Success),
             randomUUID = ''intent-1'',
             now = 1700000000000\<rparr>"

definition ex_intent :: Intent where
  "ex_intent = \<lparr>intent_id = ''intent-1'', account = ex_account, chainId = 84532,
                externalKeyHash = ex_keyHash, seqKey = 0, nonce = 7, digest = ex_digest,
                calls = [\<lparr>call_to = ''0x00000000000000000000000000000000000000bb'',
                          call_value = 5, call_data = ''0x''\<rparr>],
                threshold = 2, owners = [ex_ownerA, ex_ownerB, ex_ownerC],
                signatures = [], status = Collecting, txHash = None\<rparr>"

definition ex_db :: DB where
  "ex_db = Map.empty(''intent-1'' \<mapsto> ex_intent)"

definition ex_intent1 :: Intent where
  "ex_intent1 = ex_intent\<lparr>signatures :=
      [\<lparr>ownerKeyHash = ex_ownerA, sig = ex_sigA, at = 1700000000000\<rparr>]\<rparr>"

definition ex_intent2 :: Intent where
  "ex_intent2 = ex_intent\<lparr>signatures :=
      [\<lparr>ownerKeyHash = ex_ownerA, sig = ex_sigA, at = 1700000000000\<rparr>,
       \<lparr>ownerKeyHash = ex_ownerB, sig = ex_sigB, at = 1700000000000\<rparr>]\<rparr>"

definition ex_db1 :: DB where
  "ex_db1 = Map.empty(''intent-1'' \<mapsto> ex_intent1)"

definition ex_db2 :: DB where
  "ex_db2 = Map.empty(''intent-1'' \<mapsto> ex_intent2)"

definition env_reject_all :: Env where
  "env_reject_all = ex_env\<lparr>unwrapAndValidateSignature := (\<lambda>a d s. Some (False, ex_ownerA))\<rparr>"

definition env_nonce_advanced :: Env where
  "env_nonce_advanced = ex_env\<lparr>getNonce := (\<lambda>a k. Some 8)\<rparr>"

definition ex_db_failed :: DB where
  "ex_db_failed = Map.empty(''intent-1'' \<mapsto> ex_intent2\<lparr>status := Failed\<rparr>)"

definition ex_intent_seq1 :: Intent where
  "ex_intent_seq1 = ex_intent2\<lparr>seqKey := 1, nonce := 18446744073709551616\<rparr>"

definition ex_db_seq1 :: DB where
  "ex_db_seq1 = Map.empty(''intent-1'' \<mapsto> ex_intent_seq1)"

definition ex_getNonce_moved :: "hex \<Rightarrow> nat \<Rightarrow> nat option" where
  "ex_getNonce_moved a k = Some (if k = 0 then 7 else 99)"

definition ex_account2 :: hex where
  "ex_account2 = ''0x00000000000000000000000000000000000000dd''"

definition ex_empty :: DB where
  "ex_empty = Map.empty"

definition env_zero_threshold :: Env where
  "env_zero_threshold = ex_env\<lparr>getConfig := (\<lambda>m a k. Some (0, [ex_ownerA]))\<rparr>"

definition env_threshold_above :: Env where
  "env_threshold_above = ex_env\<lparr>getConfig := (\<lambda>m a k. Some (5, [ex_ownerA]))\<rparr>"

definition ex_body :: CreateBody where
  "ex_body = \<lparr>body_account = ex_account, body_chainId = 84532,
              body_externalKeyHash = ex_keyHash, body_seqKey = None,
              body_calls = [\<lparr>call_to = ''0x00000000000000000000000000000000000000bb'',
                             call_value = 5, call_data = ''0x''\<rparr>],
              body_multisigAddress = ''0x00000000000000000000000000000000000000cc''\<rparr>"

definition K_ex :: "byte list \<Rightarrow> byte list" where
  "K_ex bs = replicate 32 (of_nat (length bs))"

definition ex_multisig :: hex where
  "ex_multisig = ''0x00000000000000000000000000000000000000cc''"

definition ex_salt :: hex where
  "ex_salt = ''0x000000000000000000000001''"

definition ex_abi :: AccountAbi where
  "ex_abi = \<lparr>encodeAuthorize = (\<lambda>key. Some (key_publicKey key)),
             encodeExecute = (\<lambda>m d. Some d)\<rparr>"

section \<open>Strings and the flipped variant\<close>

lemma toLowerCase_length: "length (toLowerCase s) = length s"
  by (simp add: toLowerCase_def)

lemma sliceLast2_append2: "length t = 2 \<Longrightarrow> sliceLast2 (s @ t) = t"
  by (simp add: sliceLast2_def)

lemma sliceButLast2_append2: "length t = 2 \<Longrightarrow> sliceButLast2 (s @ t) = s"
  by (simp add: sliceButLast2_def)

lemma sliceLast2_lower: "sliceLast2 (toLowerCase w) = toLowerCase (sliceLast2 w)"
  by (simp add: sliceLast2_def toLowerCase_def drop_map)

lemma flipped_last2:
  "sliceLast2 (flipped w) = (if sliceLast2 (toLowerCase w) = ''01'' then ''00'' else ''01'')"
  by (simp add: flipped_def Let_def sliceLast2_append2)

lemma flipped_prefix:
  "2 \<le> length w \<Longrightarrow> sliceButLast2 (flipped w) = sliceButLast2 (toLowerCase w)"
  by (simp add: flipped_def Let_def sliceButLast2_def toLowerCase_length)

lemma flipped_append2:
  "length t = 2 \<Longrightarrow>
   flipped (s @ t) = toLowerCase s @ (if toLowerCase t = ''01'' then ''00'' else ''01'')"
  unfolding flipped_def Let_def
  by (simp add: toLowerCase_def sliceLast2_append2 sliceButLast2_append2)

lemma flipped_neq: "flipped w \<noteq> w"
proof
  assume eq: "flipped w = w"
  have low: "toLowerCase ''00'' = ''00''" "toLowerCase ''01'' = ''01''"
    by (simp_all add: toLowerCase_def toLowerChar_def)
  have "sliceLast2 (toLowerCase w) = toLowerCase (sliceLast2 (flipped w))"
    using eq by (simp add: sliceLast2_lower)
  also have "\<dots> = sliceLast2 (flipped w)"
    using low by (simp add: flipped_last2)
  finally show False
    by (simp add: flipped_last2 split: if_splits)
qed

lemma neq_by_length: "length xs \<noteq> length ys \<Longrightarrow> xs \<noteq> ys"
  by auto

section \<open>Validation attempts\<close>

lemma tryOnce_sig [simp]: "res_sig (tryOnce env a d s) = s"
  by (simp add: tryOnce_def split: option.splits prod.splits)

lemma tryOnce_ok_iff:
  "res_ok (tryOnce env a d s) \<longleftrightarrow>
     unwrapAndValidateSignature env a d s = Some (True, res_ownerKh (tryOnce env a d s))"
  by (auto simp add: tryOnce_def split: option.splits prod.splits)

lemma validate_first_ok:
  "res_ok (tryOnce env a d w) \<Longrightarrow>
     validateWrappedSignature env a d w = (tryOnce env a d w, [w])"
  by (simp add: validateWrappedSignature_def Let_def)

lemma validate_no_retry:
  "\<not> res_ok (tryOnce env a d w) \<Longrightarrow> \<not> (startsWith ''0x'' (toLowerCase w) \<and> 196 \<le> length w) \<Longrightarrow>
     validateWrappedSignature env a d w = (tryOnce env a d w, [w])"
  by (auto simp add: validateWrappedSignature_def Let_def toLowerCase_length)

lemma validate_retry:
  "\<not> res_ok (tryOnce env a d w) \<Longrightarrow> startsWith ''0x'' (toLowerCase w) \<Longrightarrow> 196 \<le> length w \<Longrightarrow>
     validateWrappedSignature env a d w =
       (if res_ok (tryOnce env a d (flipped w)) then tryOnce env a d (flipped w)
        else tryOnce env a d w, [w, flipped w])"
  by (auto simp add: validateWrappedSignature_def Let_def toLowerCase_length)

lemma validate_ok_validated:
  assumes "res_ok (fst (validateWrappedSignature env a d w))"
  shows "unwrapAndValidateSignature env a d (res_sig (fst (validateWrappedSignature env a d w)))
           = Some (True, res_ownerKh (fst (validateWrappedSignature env a d w)))"
  using assms
  by (auto simp add: validateWrappedSignature_def Let_def tryOnce_ok_iff [symmetric] split: if_splits)

lemma validate_sig_cases:
  assumes "res_ok (fst (validateWrappedSignature env a d w))"
  shows "res_sig (fst (validateWrappedSignature env a d w)) =
           (if res_ok (tryOnce env a d w) then w else flipped w)"
  using assms
  by (auto simp add: validateWrappedSignature_def Let_def split: if_splits)

section \<open>The branches of the sign route\<close>

lemma sign_POST_unknown: "db k = None \<Longrightarrow> sign_POST env db k w = (SignNotFound, db)"
  by (simp add: sign_POST_def getIntent_def)

lemma sign_POST_invalid:
  "db k = Some i \<Longrightarrow> w \<noteq> [] \<Longrightarrow> \<not> digestMismatch env i \<Longrightarrow>
   \<not> res_ok (fst (validateWrappedSignature env (account i) (digest i) w)) \<Longrightarrow>
   sign_POST env db k w = (InvalidSignature, db)"
  by (simp add: sign_POST_def getIntent_def Let_def)

lemma sign_POST_unauthorized:
  "db k = Some i \<Longrightarrow> w \<noteq> [] \<Longrightarrow> \<not> digestMismatch env i \<Longrightarrow>
   res_ok (fst (validateWrappedSignature env (account i) (digest i) w)) \<Longrightarrow>
   \<not> authorized i (res_ownerKh (fst (validateWrappedSignature env (account i) (digest i) w))) \<Longrightarrow>
   sign_POST env db k w = (SignerNotAuthorized, db)"
  by (simp add: sign_POST_def getIntent_def Let_def authorized_def)

lemma sign_POST_duplicate:
  "db k = Some i \<Longrightarrow> w \<noteq> [] \<Longrightarrow> \<not> digestMismatch env i \<Longrightarrow>
   res_ok (fst (validateWrappedSignature env (account i) (digest i) w)) \<Longrightarrow>
   authorized i (res_ownerKh (fst (validateWrappedSignature env (account i) (digest i) w))) \<Longrightarrow>
   alreadySigned i (res_ownerKh (fst (validateWrappedSignature env (account i) (digest i) w))) \<Longrightarrow>
   sign_POST env db k w = (SignOk (length (signatures i)) (threshold i) None, db)"
  by (simp add: sign_POST_def getIntent_def Let_def authorized_def alreadySigned_def)

lemma sign_POST_append:
  "db k = Some i \<Longrightarrow> w \<noteq> [] \<Longrightarrow> \<not> digestMismatch env i \<Longrightarrow>
   res_ok (fst (validateWrappedSignature env (account i) (digest i) w)) \<Longrightarrow>
   authorized i (res_ownerKh (fst (validateWrappedSignature env (account i) (digest i) w))) \<Longrightarrow>
   \<not> alreadySigned i (res_ownerKh (fst (validateWrappedSignature env (account i) (digest i) w))) \<Longrightarrow>
   sign_POST env db k w =
     (SignOk (length (appended env i w)) (threshold i) (Some (threshold i \<le> length (appended env i w))),
      setIntent (intent_id i) (\<lambda>j. j\<lparr>signatures := appended env i w\<rparr>)
        (db(k \<mapsto> i\<lparr>signatures := appended env i w\<rparr>)))"
  by (simp add: sign_POST_def getIntent_def Let_def authorized_def alreadySigned_def appended_def)

lemma sign_POST_store_cases:
  assumes "db k = Some i"
  shows "snd (sign_POST env db k w) = db \<or>
         (w \<noteq> [] \<and> \<not> digestMismatch env i \<and>
          res_ok (fst (validateWrappedSignature env (account i) (digest i) w)) \<and>
          authorized i (res_ownerKh (fst (validateWrappedSignature env (account i) (digest i) w))) \<and>
          \<not> alreadySigned i (res_ownerKh (fst (validateWrappedSignature env (account i) (digest i) w))) \<and>
          snd (sign_POST env db k w) =
            setIntent (intent_id i) (\<lambda>j. j\<lparr>signatures := appended env i w\<rparr>)
              (db(k \<mapsto> i\<lparr>signatures := appended env i w\<rparr>)))"
  using assms
  by (simp add: sign_POST_def getIntent_def Let_def authorized_def alreadySigned_def appended_def)

lemma appended_store_at_k:
  "db k = Some i \<Longrightarrow>
   setIntent (intent_id i) (\<lambda>j. j\<lparr>signatures := sigs\<rparr>) (db(k \<mapsto> i\<lparr>signatures := sigs\<rparr>)) k
     = Some (i\<lparr>signatures := sigs\<rparr>)"
  by (auto simp add: setIntent_def split: option.splits)

lemma setIntent_own_key:
  "setIntent k (\<lambda>j. j\<lparr>signatures := sigs\<rparr>) (db(k \<mapsto> i\<lparr>signatures := sigs\<rparr>))
     = db(k \<mapsto> i\<lparr>signatures := sigs\<rparr>)"
  by (simp add: setIntent_def)

lemma setIntent_other: "j \<noteq> k \<Longrightarrow> setIntent k f db j = db j"
  by (simp add: setIntent_def split: option.splits)

lemma setIntent_same: "db k = Some i \<Longrightarrow> setIntent k f db k = Some (f i)"
  by (simp add: setIntent_def)

lemma digestMismatch_signatures [simp]:
  "digestMismatch env (i\<lparr>signatures := sigs\<rparr>) = digestMismatch env i"
  by (simp add: digestMismatch_def split: option.splits)

lemma sign_POST_again:
  assumes "sign_POST env db k w = (SignOk n M r, db')"
  shows "sign_POST env db' k w = (SignOk n M None, db')"
proof (cases "db k")
  case None
  with assms show ?thesis by (simp add: sign_POST_unknown)
next
  case (Some i)
  let ?c = "fst (validateWrappedSignature env (account i) (digest i) w)"
  from assms Some have w: "w \<noteq> []" and dm: "\<not> digestMismatch env i"
    and ok: "res_ok ?c" and au: "authorized i (res_ownerKh ?c)"
    by (auto simp add: sign_POST_def getIntent_def Let_def authorized_def split: if_splits)
  show ?thesis
  proof (cases "alreadySigned i (res_ownerKh ?c)")
    case True
    from sign_POST_duplicate [where db = db and k = k and i = i and w = w and env = env]
         Some w dm ok au True assms
    show ?thesis by simp
  next
    case False
    let ?i' = "i\<lparr>signatures := appended env i w\<rparr>"
    from sign_POST_append [where db = db and k = k and i = i and w = w and env = env]
         Some w dm ok au False assms
    have n: "n = length (appended env i w)" and M: "M = threshold i"
      and db': "db' = setIntent (intent_id i) (\<lambda>j. j\<lparr>signatures := appended env i w\<rparr>)
                        (db(k \<mapsto> ?i'))"
      by simp_all
    from db' Some have look: "db' k = Some ?i'"
      by (simp add: appended_store_at_k)
    have dm': "\<not> digestMismatch env ?i'"
      using dm by simp
    have ok': "res_ok (fst (validateWrappedSignature env (account ?i') (digest ?i') w))"
      using ok by simp
    have au': "authorized ?i' (res_ownerKh (fst (validateWrappedSignature env (account ?i') (digest ?i') w)))"
      using au by (simp add: authorized_def)
    have al': "alreadySigned ?i' (res_ownerKh (fst (validateWrappedSignature env (account ?i') (digest ?i') w)))"
      by (simp add: alreadySigned_def appended_def)
    from sign_POST_duplicate [where db = db' and k = k and i = ?i' and w = w and env = env]
         look w dm' ok' au' al' n M
    show ?thesis
      by (simp add: appended_def)
  qed
qed

lemma validated_signatures_update [simp]:
  "validated env (i\<lparr>signatures := sigs\<rparr>) = validated env i"
  by (simp add: validated_def fun_eq_iff)

lemma appended_validated:
  assumes "res_ok (fst (validateWrappedSignature env (account i) (digest i) w))"
    and "list_all (validated env i) (signatures i)"
  shows "list_all (validated env i) (appended env i w)"
  using assms validate_ok_validated [of env "account i" "digest i" w]
  by (simp add: appended_def validated_def)

lemma sign_POST_all_validated:
  assumes ok: "store_ok db" and inv: "all_validated env db"
  shows "all_validated env (snd (sign_POST env db k w))"
proof (cases "db k")
  case None
  then show ?thesis using inv by (simp add: sign_POST_unknown)
next
  case (Some i)
  from ok Some have idk: "intent_id i = k" by (simp add: store_ok_def)
  from inv Some have old: "list_all (validated env i) (signatures i)"
    by (simp add: all_validated_def)
  from Some have "snd (sign_POST env db k w) = db \<or>
         (w \<noteq> [] \<and> \<not> digestMismatch env i \<and>
          res_ok (fst (validateWrappedSignature env (account i) (digest i) w)) \<and>
          authorized i (res_ownerKh (fst (validateWrappedSignature env (account i) (digest i) w))) \<and>
          \<not> alreadySigned i (res_ownerKh (fst (validateWrappedSignature env (account i) (digest i) w))) \<and>
          snd (sign_POST env db k w) =
            setIntent (intent_id i) (\<lambda>j. j\<lparr>signatures := appended env i w\<rparr>)
              (db(k \<mapsto> i\<lparr>signatures := appended env i w\<rparr>)))"
    by (rule sign_POST_store_cases)
  then show ?thesis
  proof
    assume "snd (sign_POST env db k w) = db"
    then show ?thesis using inv by simp
  next
    assume app: "w \<noteq> [] \<and> \<not> digestMismatch env i \<and>
          res_ok (fst (validateWrappedSignature env (account i) (digest i) w)) \<and>
          authorized i (res_ownerKh (fst (validateWrappedSignature env (account i) (digest i) w))) \<and>
          \<not> alreadySigned i (res_ownerKh (fst (validateWrappedSignature env (account i) (digest i) w))) \<and>
          snd (sign_POST env db k w) =
            setIntent (intent_id i) (\<lambda>j. j\<lparr>signatures := appended env i w\<rparr>)
              (db(k \<mapsto> i\<lparr>signatures := appended env i w\<rparr>))"
    then have db': "snd (sign_POST env db k w) = db(k \<mapsto> i\<lparr>signatures := appended env i w\<rparr>)"
      using idk by (simp add: setIntent_own_key)
    from app old have "list_all (validated env i) (appended env i w)"
      by (simp add: appended_validated)
    with inv db' show ?thesis
      by (simp add: all_validated_def)
  qed
qed

section \<open>Hex strings as bytes\<close>

lemma nibble_hexDigits: "n < 16 \<Longrightarrow> nibble (hexDigits ! n) = Some n"
proof -
  assume "n < 16"
  then consider "n = 0" | "n = 1" | "n = 2" | "n = 3" | "n = 4" | "n = 5" | "n = 6" | "n = 7"
    | "n = 8" | "n = 9" | "n = 10" | "n = 11" | "n = 12" | "n = 13" | "n = 14" | "n = 15"
    by atomize_elim arith
  then show ?thesis
    by cases (simp_all add: nibble_def hexDigits_def)
qed

lemma nibbleValue_hexDigits: "n < 16 \<Longrightarrow> nibbleValue (hexDigits ! n) = n"
  by (simp add: nibbleValue_def nibble_hexDigits)

lemma unat_byte_div16: "unat (b :: byte) div 16 < 16"
proof -
  have "unat b < 256" using unsigned_less [of b, where 'a = nat] by simp
  then show ?thesis by simp
qed

lemma digitsBytes_byteHex: "digitsBytes (byteHex b @ cs) = b # digitsBytes cs"
  by (simp add: byteHex_def nibbleValue_hexDigits unat_byte_div16)

lemma digitsBytes_concat_byteHex: "digitsBytes (concat (map byteHex bs) @ cs) = bs @ digitsBytes cs"
  by (induction bs) (simp_all add: digitsBytes_byteHex)

lemma hexBytes_bytesToHex [simp]: "hexBytes (bytesToHex bs) = bs"
  using digitsBytes_concat_byteHex [of bs "[]"]
  by (simp add: hexBytes_def bytesToHex_def)

lemma byteHex_digits: "list_all (\<lambda>c. nibble c \<noteq> None) (byteHex b)"
  by (simp add: byteHex_def nibble_hexDigits unat_byte_div16)

lemma length_byteHex [simp]: "length (byteHex b) = 2"
  by (simp add: byteHex_def)

lemma length_concat_byteHex: "length (concat (map byteHex bs)) = 2 * length bs"
  by (induction bs) simp_all

lemma isHexBytes_bytesToHex [simp]: "isHexBytes (bytesToHex bs)"
proof -
  have "list_all (\<lambda>c. nibble c \<noteq> None) (concat (map byteHex bs))"
    by (induction bs) (simp_all add: byteHex_digits del: not_None_eq)
  then show ?thesis
    by (simp add: isHexBytes_def bytesToHex_def length_concat_byteHex)
qed

lemma hexToBytes_bytesToHex [simp]: "hexToBytes (bytesToHex bs) = Some bs"
  by (simp add: hexToBytes_def)

lemma isHexBytes_split: "isHexBytes h \<Longrightarrow> h = ''0x'' @ drop 2 h"
  by (metis append_take_drop_id isHexBytes_def)

lemma replace0x_hex: "isHexBytes h \<Longrightarrow> replace0x h = drop 2 h"
proof -
  assume h: "isHexBytes h"
  then obtain cs where "h = CHR ''0'' # CHR ''x'' # cs"
    using isHexBytes_split by fastforce
  then show ?thesis by simp
qed

lemma digitsBytes_append:
  "even (length xs) \<Longrightarrow> digitsBytes (xs @ ys) = digitsBytes xs @ digitsBytes ys"
  by (induction xs rule: digitsBytes.induct) simp_all

lemma concatHex_wf:
  assumes "list_all isHexBytes hs"
  shows "isHexBytes (concatHex hs) \<and> hexBytes (concatHex hs) = concat (map hexBytes hs)"
proof -
  have body: "list_all (\<lambda>c. nibble c \<noteq> None) (concat (map replace0x hs)) \<and>
              even (length (concat (map replace0x hs))) \<and>
              digitsBytes (concat (map replace0x hs)) = concat (map hexBytes hs)"
    using assms
  proof (induction hs)
    case Nil
    then show ?case by simp
  next
    case (Cons h hs)
    then have h: "isHexBytes h" and hs: "list_all isHexBytes hs" by simp_all
    from h have r: "replace0x h = drop 2 h" by (rule replace0x_hex)
    from h have ev: "even (length (drop 2 h))" and dg: "list_all (\<lambda>c. nibble c \<noteq> None) (drop 2 h)"
      by (auto simp add: isHexBytes_def)
    from Cons.IH [OF hs] r ev dg show ?case
      by (simp add: digitsBytes_append hexBytes_def)
  qed
  then show ?thesis
    by (simp add: concatHex_def isHexBytes_def hexBytes_def)
qed

lemma those_map_Some:
  "(\<And>x. x \<in> set xs \<Longrightarrow> f x = Some (g x)) \<Longrightarrow> those (map f xs) = Some (map g xs)"
  by (induction xs) simp_all

lemma isHexBytes_00: "isHexBytes ''0x00''" "hexBytes ''0x00'' = [0]"
  by (simp_all add: isHexBytes_def hexBytes_def nibble_def nibbleValue_def)

lemma length_be_bytes [simp]: "length (be_bytes k n) = k"
  by (induction k n rule: be_bytes.induct) simp_all

lemma length_u256 [simp]: "length (u256 n) = 32"
  by (simp add: u256_def)

section \<open>The payload of a well-formed intent\<close>

text \<open>
  The encoders work on strings; the specification speaks of bytes. On hex strings that
  denote bytes each encoder returns a string that denotes the ABI encoding of those
  bytes, whatever the case of the digits.
\<close>

lemma length_digitsBytes: "length (digitsBytes cs) = length cs div 2"
  by (induction cs rule: digitsBytes.induct) simp_all

lemma startsWith_0x: "startsWith ''0x'' h \<longleftrightarrow> take 2 h = ''0x''"
  by (simp add: startsWith_def numeral_2_eq_2)

lemma isHexBytes_length: "isHexBytes h \<Longrightarrow> length h = 2 * length (hexBytes h) + 2"
proof -
  assume h: "isHexBytes h"
  then have "length (take 2 h) = 2" by (simp add: isHexBytes_def)
  then have two: "2 \<le> length h" by simp
  from h have "even (length h)" by (simp add: isHexBytes_def)
  with two have "even (length h - 2)" by simp
  then have "2 * ((length h - 2) div 2) = length h - 2"
    by (rule dvd_mult_div_cancel)
  with two show ?thesis
    by (simp add: hexBytes_def length_digitsBytes)
qed

lemma size_hex_wf: "isHexBytes h \<Longrightarrow> size_hex h = length (hexBytes h)"
proof -
  assume h: "isHexBytes h"
  then have s: "startsWith ''0x'' h"
    by (simp add: startsWith_0x isHexBytes_def)
  have "(length h - 2 + 1) div 2 = length (hexBytes h)"
    unfolding isHexBytes_length [OF h] by simp
  with s show ?thesis
    by (simp add: size_hex_def)
qed

lemma hexWord_wf [simp]:
  "isHexBytes (hexWord n)" "hexBytes (hexWord n) = u256 n" "size_hex (hexWord n) = 32"
  by (simp_all add: hexWord_def size_hex_wf)

lemma nibble_zero: "nibble (CHR ''0'') = Some 0"
  by (simp add: nibble_def)

lemma digitsBytes_zeros: "digitsBytes (replicate (2 * k) (CHR ''0'')) = replicate k 0"
  by (induction k) (simp_all add: nibbleValue_def nibble_zero)

lemma zeros_digits: "list_all (\<lambda>c. nibble c \<noteq> None) (replicate k (CHR ''0''))"
  by (induction k) (simp_all add: nibble_zero)

lemma ceil_small: "(r::nat) < 32 \<Longrightarrow> r \<noteq> 0 \<Longrightarrow> (r + 31) div 32 = 1"
  by arith

lemma ceil_split: "((q * 32 + r + 31) div 32 :: nat) = q + (r + 31) div 32"
  by simp

lemma ceil32: "((n + 31) div 32 * 32 :: nat) = n + (32 - n mod 32) mod 32"
proof -
  define q r where "q = n div 32" and "r = n mod 32"
  have n: "n = q * 32 + r" and r: "r < 32"
    by (simp_all add: q_def r_def)
  show ?thesis
  proof (cases "r = 0")
    case True
    with n show ?thesis by simp
  next
    case False
    with r have "(r + 31) div 32 = 1" by (rule_tac ceil_small)
    moreover have "(n + 31) div 32 = q + (r + 31) div 32"
      unfolding n by (rule ceil_split)
    moreover have "n mod 32 = r" by (simp add: r_def)
    ultimately show ?thesis
      using r False n by simp
  qed
qed

lemma ceil64: "((2 * n + 63) div 64 :: nat) = (n + 31) div 32"
proof -
  have "(2 * n + 63) div 64 = ((2 * n + 63) div 2) div 32"
    by (simp add: div_mult2_eq)
  also have "(2 * n + 63) div 2 = n + 31"
    by simp
  finally show ?thesis .
qed

lemma pad_size: "((2 * n + 2 + 61) div 64 * 32 :: nat) = n + (32 - n mod 32) mod 32"
proof -
  have "(2 * n + 2 + 61) div 64 = (2 * n + 63) div 64"
    by simp
  then show ?thesis
    by (simp only: ceil64 ceil32)
qed

lemma encodeBytes_wf:
  assumes "isHexBytes h"
  shows "\<exists>e. encodeBytes h = Some e \<and> isHexBytes e \<and> hexBytes e = abi_bytes (hexBytes h)"
proof -
  let ?n = "length (hexBytes h)"
  from assms have r: "replace0x h = drop 2 h" by (rule replace0x_hex)
  from assms have len: "length h = 2 * ?n + 2"
    by (rule isHexBytes_length)
  from assms have ev: "even (length (drop 2 h))"
    and dg: "list_all (\<lambda>c. nibble c \<noteq> None) (drop 2 h)" and pre: "take 2 h = ''0x''"
    by (simp_all add: isHexBytes_def)
  have "\<exists>v. (if size_hex h mod 32 \<noteq> 0 then padHexRight ((length h + 61) div 64 * 32) h
              else Some h) = Some v \<and> isHexBytes v \<and> hexBytes v = pad_right32 (hexBytes h)"
  proof (cases "?n mod 32 = 0")
    case True
    with assms show ?thesis
      by (simp add: size_hex_wf pad_right32_def)
  next
    case False
    let ?z = "replicate (2 * ((32 - ?n mod 32) mod 32)) (CHR ''0'')"
    have l2: "length h - 2 = 2 * ?n" using len by simp
    have sz: "(length h + 61) div 64 * 32 = ?n + (32 - ?n mod 32) mod 32"
      unfolding len by (rule pad_size)
    have p: "padHexRight ((length h + 61) div 64 * 32) h = Some (''0x'' @ drop 2 h @ ?z)"
      unfolding sz by (simp add: padHexRight_def r Let_def l2)
    have w: "isHexBytes (''0x'' @ drop 2 h @ ?z)"
      using dg l2 by (simp add: isHexBytes_def zeros_digits del: not_None_eq)
    have b: "hexBytes (''0x'' @ drop 2 h @ ?z) = pad_right32 (hexBytes h)"
      using ev by (simp add: hexBytes_def digitsBytes_append digitsBytes_zeros pad_right32_def)
    from False assms p w b show ?thesis
      by (simp add: size_hex_wf)
  qed
  then obtain v where v: "(if size_hex h mod 32 \<noteq> 0
                           then padHexRight ((length h + 61) div 64 * 32) h else Some h) = Some v"
    "isHexBytes v" "hexBytes v = pad_right32 (hexBytes h)"
    by blast
  have "list_all isHexBytes [hexWord (size_hex h), v]"
    using v(2) by simp
  from concatHex_wf [OF this] v assms show ?thesis
    by (simp add: encodeBytes_def Let_def abi_bytes_def size_hex_wf)
qed

lemma staticParams_dynamic:
  "list_all isHexBytes es \<Longrightarrow>
   list_all isHexBytes (staticParams off (map (Pair True) es)) \<and>
   concat (map hexBytes (staticParams off (map (Pair True) es))) = abi_offsets off (map hexBytes es)"
  by (induction es arbitrary: off) (simp_all add: size_hex_wf)

lemma staticSize_dynamic: "staticSize (map (Pair True) es) = 32 * length es"
  by (induction es) (simp_all add: staticSize_def)

lemma encodeParams_dynamic:
  assumes "list_all isHexBytes es"
  shows "isHexBytes (encodeParams (map (Pair True) es)) \<and>
         hexBytes (encodeParams (map (Pair True) es)) = abi_dyn_seq (map hexBytes es)"
proof -
  have f: "map (snd \<circ> Pair True) es = es"
    by (simp add: comp_def)
  from staticParams_dynamic [OF assms, of "32 * length es"] assms
  have "list_all isHexBytes (staticParams (32 * length es) (map (Pair True) es) @ es)"
    by simp
  from concatHex_wf [OF this] staticParams_dynamic [OF assms, of "32 * length es"] show ?thesis
    by (simp add: encodeParams_def staticSize_dynamic f abi_dyn_seq_def)
qed

lemma encodeArray_dynamic:
  assumes "list_all isHexBytes es"
  shows "isHexBytes (encodeArray (map (Pair True) es)) \<and>
         hexBytes (encodeArray (map (Pair True) es)) = abi_dyn_array (map hexBytes es)"
proof (cases "es = []")
  case True
  then show ?thesis
    by (simp add: encodeArray_def abi_dyn_array_def abi_dyn_seq_def)
next
  case False
  from encodeParams_dynamic [OF assms]
  have "list_all isHexBytes [hexWord (length es), encodeParams (map (Pair True) es)]"
    by simp
  from concatHex_wf [OF this] encodeParams_dynamic [OF assms] False show ?thesis
    by (simp add: encodeArray_def abi_dyn_array_def)
qed

lemma those_map_wf:
  assumes "\<And>x. x \<in> set xs \<Longrightarrow> \<exists>e. f x = Some e \<and> isHexBytes e \<and> hexBytes e = g x"
  shows "\<exists>es. those (map f xs) = Some es \<and> list_all isHexBytes es \<and> map hexBytes es = map g xs"
  using assms
proof (induction xs)
  case Nil
  then show ?case by simp
next
  case (Cons x xs)
  then obtain es where es: "those (map f xs) = Some es" "list_all isHexBytes es"
    "map hexBytes es = map g xs"
    by auto
  from Cons.prems [of x] obtain e where e: "f x = Some e" "isHexBytes e" "hexBytes e = g x"
    by auto
  from es e show ?case by simp
qed

lemma encodeAbiParameters_bytesArray_wf:
  assumes "list_all isHexBytes sigs"
  shows "\<exists>agg. encodeAbiParameters_bytesArray sigs = Some agg \<and> isHexBytes agg \<and>
           hexBytes agg = spec_aggregated (map hexBytes sigs)"
proof -
  have "\<exists>es. those (map encodeBytes sigs) = Some es \<and> list_all isHexBytes es \<and>
          map hexBytes es = map (\<lambda>h. abi_bytes (hexBytes h)) sigs"
    using assms by (intro those_map_wf) (auto simp add: list_all_iff encodeBytes_wf)
  then obtain es where es: "those (map encodeBytes sigs) = Some es" "list_all isHexBytes es"
    "map hexBytes es = map (\<lambda>h. abi_bytes (hexBytes h)) sigs"
    by blast
  from encodeArray_dynamic [OF es(2)]
  have "list_all isHexBytes [encodeArray (map (Pair True) es)]"
    by simp
  from encodeParams_dynamic [OF this] encodeArray_dynamic [OF es(2)] es show ?thesis
    by (simp add: encodeAbiParameters_bytesArray_def spec_aggregated_def comp_def)
qed

lemma aggregated_wf:
  assumes "list_all (\<lambda>s. isHexBytes (sig s)) (signatures i)"
  shows "\<exists>agg. aggregated i = Some agg \<and> isHexBytes agg \<and>
           hexBytes agg = spec_aggregated (map (\<lambda>s. hexBytes (sig s)) (signatures i))"
proof -
  from assms have "list_all isHexBytes (map sig (signatures i))"
    by (simp add: list_all_iff)
  from encodeAbiParameters_bytesArray_wf [OF this] show ?thesis
    by (simp add: aggregated_def comp_def)
qed

lemma outer_wf:
  assumes "list_all (\<lambda>s. isHexBytes (sig s)) (signatures i)" and "isHexBytes (externalKeyHash i)"
  shows "\<exists>out. outer i = Some out \<and> isHexBytes out \<and>
           hexBytes out = spec_outer (map (\<lambda>s. hexBytes (sig s)) (signatures i))
                            (hexBytes (externalKeyHash i))"
proof -
  from aggregated_wf [OF assms(1)] obtain agg where agg: "aggregated i = Some agg"
    "isHexBytes agg"
    "hexBytes agg = spec_aggregated (map (\<lambda>s. hexBytes (sig s)) (signatures i))"
    by blast
  have "list_all isHexBytes [agg, externalKeyHash i, ''0x00'']"
    using assms(2) agg(2) by (simp add: isHexBytes_00)
  from concatHex_wf [OF this] agg show ?thesis
    by (simp add: outer_def spec_outer_def isHexBytes_00)
qed

lemma opData_wf:
  assumes "list_all (\<lambda>s. isHexBytes (sig s)) (signatures i)" and "isHexBytes (externalKeyHash i)"
    and "nonce i < 2 ^ 256"
  shows "\<exists>od. opData i = Some od \<and> isHexBytes od \<and>
           hexBytes od = spec_opData (nonce i) (map (\<lambda>s. hexBytes (sig s)) (signatures i))
                           (hexBytes (externalKeyHash i))"
proof -
  from outer_wf [OF assms(1,2)] obtain out where out: "outer i = Some out" "isHexBytes out"
    "hexBytes out = spec_outer (map (\<lambda>s. hexBytes (sig s)) (signatures i))
                            (hexBytes (externalKeyHash i))"
    by blast
  have "list_all isHexBytes [bytesToHex (u256 (nonce i)), out]"
    using out(2) by simp
  from concatHex_wf [OF this] out assms(3) show ?thesis
    by (simp add: opData_def toHex32_def spec_opData_def)
qed

text \<open>Lower-casing a hex digit keeps its value, so an address denotes the same bytes in
  either case.\<close>

lemma nibble_toLowerChar: "nibble c \<noteq> None \<Longrightarrow> nibble (toLowerChar c) = nibble c"
proof -
  assume "nibble c \<noteq> None"
  then obtain n where "nibble c = Some n" by blast
  then have "(c, n) \<in> set (zip ''0123456789abcdefABCDEF''
               [0, 1, 2, 3, 4, 5, 6, 7, 8, 9, 10, 11, 12, 13, 14, 15, 10, 11, 12, 13, 14, 15])"
    unfolding nibble_def by (rule map_of_SomeD)
  then have "c \<in> set ''0123456789abcdefABCDEF''"
    by (rule in_set_zipE)
  then have "c = CHR ''0'' \<or> c = CHR ''1'' \<or> c = CHR ''2'' \<or> c = CHR ''3'' \<or> c = CHR ''4'' \<or>
      c = CHR ''5'' \<or> c = CHR ''6'' \<or> c = CHR ''7'' \<or> c = CHR ''8'' \<or> c = CHR ''9'' \<or>
      c = CHR ''a'' \<or> c = CHR ''b'' \<or> c = CHR ''c'' \<or> c = CHR ''d'' \<or> c = CHR ''e'' \<or>
      c = CHR ''f'' \<or> c = CHR ''A'' \<or> c = CHR ''B'' \<or> c = CHR ''C'' \<or> c = CHR ''D'' \<or>
      c = CHR ''E'' \<or> c = CHR ''F''"
    by simp
  then show ?thesis
    by (elim disjE) (simp_all add: toLowerChar_def nibble_def)
qed

lemma digits_toLowerCase:
  "list_all (\<lambda>c. nibble c \<noteq> None) cs \<Longrightarrow>
   list_all (\<lambda>c. nibble c \<noteq> None) (toLowerCase cs) \<and>
   digitsBytes (toLowerCase cs) = digitsBytes cs"
proof (induction cs rule: digitsBytes.induct)
  case (1 a b cs)
  then show ?case
    by (simp add: toLowerCase_def nibble_toLowerChar nibbleValue_def del: not_None_eq)
qed (simp_all add: toLowerCase_def nibble_toLowerChar del: not_None_eq)

lemma isAddress_hex: "isAddress K a \<Longrightarrow> isHexBytes a \<and> length (hexBytes a) = 20"
  by (auto simp add: isAddress_def addressRegex_def isHexBytes_def hexBytes_def
      length_digitsBytes)

lemma encodeAddress_wf:
  assumes "isAddress K a"
  shows "\<exists>e. encodeAddress K a = Some e \<and> isHexBytes e \<and> size_hex e = 32 \<and>
           hexBytes e = replicate 12 0 @ hexBytes a"
proof -
  from assms have pre: "take 2 a = ''0x''" and len: "length a = 42"
    and dg: "list_all (\<lambda>c. nibble c \<noteq> None) (drop 2 a)"
    by (simp_all add: isAddress_def addressRegex_def)
  from pre have a: "a = ''0x'' @ drop 2 a"
    by (metis append_take_drop_id)
  have lx: "toLowerCase (''0x'' @ ds) = ''0x'' @ toLowerCase ds" for ds
    by (simp add: toLowerCase_def toLowerChar_def)
  have "toLowerCase a = toLowerCase (''0x'' @ drop 2 a)"
    by (rule arg_cong [where f = toLowerCase, OF a])
  then have "toLowerCase a = ''0x'' @ toLowerCase (drop 2 a)"
    by (simp only: lx)
  then have low: "replace0x (toLowerCase a) = toLowerCase (drop 2 a)"
    by simp
  let ?d = "toLowerCase (drop 2 a)"
  from digits_toLowerCase [OF dg] have d: "list_all (\<lambda>c. nibble c \<noteq> None) ?d"
    "digitsBytes ?d = digitsBytes (drop 2 a)"
    by simp_all
  have ld: "length ?d = 40" using len by (simp add: toLowerCase_def)
  let ?e = "''0x'' @ replicate 24 (CHR ''0'') @ ?d"
  have w: "isHexBytes ?e"
    using d(1) ld zeros_digits [of 24] by (simp add: isHexBytes_def del: not_None_eq)
  have "digitsBytes (replicate 24 (CHR ''0'') @ ?d) = replicate 12 0 @ digitsBytes ?d"
    using digitsBytes_zeros [of 12] by (simp add: digitsBytes_append)
  then have b: "hexBytes ?e = replicate 12 0 @ hexBytes a"
    using d(2) by (simp add: hexBytes_def)
  have "length (hexBytes ?e) = 32"
    using ld by (simp add: hexBytes_def length_digitsBytes)
  then have s: "size_hex ?e = 32"
    by (simp only: size_hex_wf [OF w])
  from assms low w b s show ?thesis
    by (simp add: encodeAddress_def)
qed

lemma encodeCall_wf:
  assumes "wf_call K c"
  shows "\<exists>e. encodeCall K c = Some e \<and> isHexBytes e \<and>
           hexBytes e = (case call_bytes c of (to20, v, d) \<Rightarrow> abi_call to20 v d)"
proof -
  from assms have ad: "isAddress K (call_to c)" and v: "0 \<le> call_value c" "call_value c < 2 ^ 256"
    and da: "isHexBytes (call_data c)"
    by (simp_all add: wf_call_def)
  from encodeAddress_wf [OF ad] obtain a where a: "encodeAddress K (call_to c) = Some a"
    "isHexBytes a" "size_hex a = 32" "hexBytes a = replicate 12 0 @ hexBytes (call_to c)"
    by blast
  from encodeBytes_wf [OF da] obtain d where d: "encodeBytes (call_data c) = Some d"
    "isHexBytes d" "hexBytes d = abi_bytes (hexBytes (call_data c))"
    by blast
  let ?v = "hexWord (nat (call_value c))"
  have ps: "encodeParams [(False, a), (False, ?v), (True, d)] = concatHex [a, ?v, hexWord 96, d]"
    using a(3) by (simp add: encodeParams_def staticSize_def)
  have "list_all isHexBytes [a, ?v, hexWord 96, d]"
    using a(2) d(2) by simp
  from concatHex_wf [OF this] a d v ps show ?thesis
    by (simp add: encodeCall_def encodeUint256_def call_bytes_def abi_call_def)
qed

lemma executionData_wf:
  assumes "wf_intent K i"
  shows "\<exists>p. executionData K i = Some p \<and> isHexBytes p \<and> hexBytes p = spec_payload i"
proof -
  from assms have sg: "list_all (\<lambda>s. isHexBytes (sig s)) (signatures i)"
    and kh: "isHexBytes (externalKeyHash i)" and nn: "nonce i < 2 ^ 256"
    and cs: "list_all (wf_call K) (calls i)"
    by (simp_all add: wf_intent_def)
  from opData_wf [OF sg kh nn] obtain od where od: "opData i = Some od" "isHexBytes od"
    "hexBytes od = spec_opData (nonce i) (map (\<lambda>s. hexBytes (sig s)) (signatures i))
                           (hexBytes (externalKeyHash i))"
    by blast
  from encodeBytes_wf [OF od(2)] obtain ode where ode: "encodeBytes od = Some ode"
    "isHexBytes ode" "hexBytes ode = abi_bytes (hexBytes od)"
    by blast
  have "\<exists>es. those (map (encodeCall K) (calls i)) = Some es \<and> list_all isHexBytes es \<and>
          map hexBytes es =
            map (\<lambda>c. case call_bytes c of (to20, v, d) \<Rightarrow> abi_call to20 v d) (calls i)"
    using cs by (intro those_map_wf) (auto simp add: list_all_iff encodeCall_wf)
  then obtain es where es: "those (map (encodeCall K) (calls i)) = Some es"
    "list_all isHexBytes es"
    "map hexBytes es =
       map (\<lambda>c. case call_bytes c of (to20, v, d) \<Rightarrow> abi_call to20 v d) (calls i)"
    by blast
  from encodeArray_dynamic [OF es(2)] ode(2)
  have "list_all isHexBytes [encodeArray (map (Pair True) es), ode]"
    by simp
  from encodeParams_dynamic [OF this] encodeArray_dynamic [OF es(2)] es od ode show ?thesis
    by (simp add: executionData_def encodeAbiParameters_calls_bytes_def
        spec_payload_def spec_executionData_def comp_def)
qed

lemma executionData_status [simp]: "executionData K (i\<lparr>status := s\<rparr>) = executionData K i"
proof -
  have "outer (i\<lparr>status := s\<rparr>) = outer i"
    by (simp add: outer_def aggregated_def)
  then have "opData (i\<lparr>status := s\<rparr>) = opData i"
    by (simp add: opData_def cong: option.case_cong)
  then show ?thesis
    by (simp add: executionData_def cong: option.case_cong)
qed

lemma executionData_seqKey [simp]: "executionData K (i\<lparr>seqKey := s\<rparr>) = executionData K i"
proof -
  have "outer (i\<lparr>seqKey := s\<rparr>) = outer i"
    by (simp add: outer_def aggregated_def)
  then have "opData (i\<lparr>seqKey := s\<rparr>) = opData i"
    by (simp add: opData_def cong: option.case_cong)
  then show ?thesis
    by (simp add: executionData_def cong: option.case_cong)
qed

text \<open>Conversely, a payload is built only where the encoders accept the call targets,
  the amounts and the nonce.\<close>

lemma those_map_all: "those (map f xs) = Some ys \<Longrightarrow> list_all (\<lambda>x. f x \<noteq> None) xs"
  by (induction xs arbitrary: ys) (auto split: option.splits)

lemma encodeCall_built:
  "encodeCall K c = Some e \<Longrightarrow>
   isAddress K (call_to c) \<and> 0 \<le> call_value c \<and> call_value c < 2 ^ 256"
  by (auto simp add: encodeCall_def encodeAddress_def encodeUint256_def
      split: option.splits if_splits)

lemma executionData_built:
  assumes "executionData K i = Some p"
  shows "list_all (\<lambda>c. isAddress K (call_to c) \<and> 0 \<le> call_value c \<and> call_value c < 2 ^ 256)
           (calls i) \<and> nonce i < 2 ^ 256"
proof -
  from assms obtain od es where od: "opData i = Some od"
    and es: "those (map (encodeCall K) (calls i)) = Some es"
    by (auto simp add: executionData_def encodeAbiParameters_calls_bytes_def
        split: option.splits)
  from od have n: "nonce i < 2 ^ 256"
    by (auto simp add: opData_def toHex32_def split: option.splits if_splits)
  from those_map_all [OF es] have a: "list_all (\<lambda>c. encodeCall K c \<noteq> None) (calls i)" .
  have "isAddress K (call_to c) \<and> 0 \<le> call_value c \<and> call_value c < 2 ^ 256"
    if "c \<in> set (calls i)" for c
  proof -
    from a that obtain e where "encodeCall K c = Some e"
      unfolding list_all_iff by blast
    then show ?thesis by (rule encodeCall_built)
  qed
  then have "list_all (\<lambda>c. isAddress K (call_to c) \<and> 0 \<le> call_value c \<and> call_value c < 2 ^ 256)
           (calls i)"
    unfolding list_all_iff by blast
  with n show ?thesis by blast
qed

lemma computeExternalKeyHash_wf:
  assumes "isHexBytes multisig" and "isHexBytes salt12"
    and "length (K (hexBytes multisig @ hexBytes salt12)) = 32"
  shows "computeExternalKeyHash K multisig salt12 =
           Some (bytesToHex (spec_externalKeyHash K (hexBytes multisig) (hexBytes salt12)))"
proof -
  have "list_all isHexBytes [multisig, salt12]"
    using assms by simp
  from concatHex_wf [OF this]
  have pub: "isHexBytes (externalPublicKey multisig salt12)"
    "hexBytes (externalPublicKey multisig salt12) = hexBytes multisig @ hexBytes salt12"
    by (simp_all add: externalPublicKey_def)
  then have k1: "keccak256 K (externalPublicKey multisig salt12) =
               Some (bytesToHex (K (hexBytes multisig @ hexBytes salt12)))"
    by (simp add: keccak256_def hexToBytes_def)
  have k2: "encodeAbiParameters_uint8_bytes32 3
              (bytesToHex (K (hexBytes multisig @ hexBytes salt12))) =
            Some (bytesToHex (u256 3 @ K (hexBytes multisig @ hexBytes salt12)))"
    using assms(3) by (simp add: encodeAbiParameters_uint8_bytes32_def)
  have k3: "keccak256 K (bytesToHex (u256 3 @ K (hexBytes multisig @ hexBytes salt12))) =
            Some (bytesToHex (K (u256 3 @ K (hexBytes multisig @ hexBytes salt12))))"
    by (simp add: keccak256_def)
  show ?thesis
    by (simp add: computeExternalKeyHash_def Let_def k1 k2 k3 spec_externalKeyHash_def)
qed

section \<open>The branches of the submit route\<close>

lemma submit_POST_unknown:
  "db k = None \<Longrightarrow> submit_POST K env db k = \<lparr>response = SubmitNotFound, store = db, sent = None\<rparr>"
  by (simp add: submit_POST_def getIntent_def)

lemma submit_POST_mismatch:
  "db k = Some i \<Longrightarrow> walletClient env = Some wc \<Longrightarrow> threshold i \<le> length (signatures i) \<Longrightarrow>
   executionData K i = Some p \<Longrightarrow> getNonce env (account i) 0 = Some cur \<Longrightarrow> cur \<noteq> nonce i \<Longrightarrow>
   submit_POST K env db k = \<lparr>response = NonceMismatch (nonce i) cur, store = db, sent = None\<rparr>"
  by (auto simp add: submit_POST_def getIntent_def)

lemma submit_POST_broadcast:
  "db k = Some i \<Longrightarrow> walletClient env = Some wc \<Longrightarrow> threshold i \<le> length (signatures i) \<Longrightarrow>
   executionData K i = Some p \<Longrightarrow> getNonce env (account i) 0 = Some (nonce i) \<Longrightarrow>
   sent (submit_POST K env db k) = Some (account i, MODE_SINGLE_WITH_OPDATA, p)"
  by (simp add: submit_POST_def getIntent_def Let_def split: SendResult.splits sum.splits)

lemma submit_POST_confirmed:
  "db k = Some i \<Longrightarrow> walletClient env = Some wc \<Longrightarrow> threshold i \<le> length (signatures i) \<Longrightarrow>
   executionData K i = Some p \<Longrightarrow> getNonce env (account i) 0 = Some (nonce i) \<Longrightarrow>
   wc (account i) MODE_SINGLE_WITH_OPDATA p = Sent h \<Longrightarrow>
   waitForTransactionReceipt env h = Inr Success \<Longrightarrow>
   submit_POST K env db k =
     \<lparr>response = SubmitOk h Success,
      store = setIntent (intent_id i) (\<lambda>j. j\<lparr>status := Confirmed\<rparr>)
                (setIntent (intent_id i) (\<lambda>j. j\<lparr>status := Submitted, txHash := Some h\<rparr>) db),
      sent = Some (account i, MODE_SINGLE_WITH_OPDATA, p)\<rparr>"
  by (simp add: submit_POST_def getIntent_def Let_def)

lemma submit_POST_sent:
  assumes "db k = Some i" and "sent (submit_POST K env db k) = Some (a, m, p)"
  shows "executionData K i = Some p \<and> m = MODE_SINGLE_WITH_OPDATA \<and> a = account i \<and>
         threshold i \<le> length (signatures i) \<and> getNonce env (account i) 0 = Some (nonce i)"
  using assms
  by (auto simp add: submit_POST_def getIntent_def Let_def
      split: option.splits if_splits SendResult.splits sum.splits)

lemma submit_POST_bad_call:
  assumes "db k = Some i"
    and "\<not> list_all (\<lambda>c. isAddress K (call_to c) \<and> 0 \<le> call_value c \<and> call_value c < 2 ^ 256)
             (calls i)"
  shows "sent (submit_POST K env db k) = None"
proof (rule ccontr)
  assume "sent (submit_POST K env db k) \<noteq> None"
  then obtain a m p where "sent (submit_POST K env db k) = Some (a, m, p)"
    by (cases "sent (submit_POST K env db k)") auto
  from submit_POST_sent [OF assms(1) this] have "executionData K i = Some p"
    by blast
  from executionData_built [OF this] assms(2) show False
    by blast
qed

lemma submit_POST_store_cases:
  assumes "db k = Some i"
  shows "(store (submit_POST K env db k) = db \<and> sent (submit_POST K env db k) = None) \<or>
         (sent (submit_POST K env db k) \<noteq> None \<and>
          (\<exists>h. store (submit_POST K env db k) =
                 setIntent (intent_id i) (\<lambda>j. j\<lparr>status := Failed\<rparr>) db \<or>
               store (submit_POST K env db k) =
                 setIntent (intent_id i) (\<lambda>j. j\<lparr>status := Failed\<rparr>)
                   (setIntent (intent_id i) (\<lambda>j. j\<lparr>status := Submitted, txHash := Some h\<rparr>) db) \<or>
               store (submit_POST K env db k) =
                 setIntent (intent_id i) (\<lambda>j. j\<lparr>status := Confirmed\<rparr>)
                   (setIntent (intent_id i) (\<lambda>j. j\<lparr>status := Submitted, txHash := Some h\<rparr>) db)))"
  using assms
  by (auto simp add: submit_POST_def getIntent_def Let_def
      split: option.splits SendResult.splits sum.splits)

lemma submit_POST_terminal:
  assumes ok: "store_ok db" and j: "db j = Some i"
    and t: "status i = Confirmed \<or> status i = Failed"
  shows "\<exists>i'. store (submit_POST K env db k) j = Some i' \<and>
           (status i' = Confirmed \<or> status i' = Failed) \<and>
           (sent (submit_POST K env db k) = None \<longrightarrow> status i' = status i)"
proof (cases "db k")
  case None
  with j t show ?thesis by (simp add: submit_POST_unknown)
next
  case (Some i0)
  with ok have id0: "intent_id i0 = k" by (simp add: store_ok_def)
  show ?thesis
  proof (cases "j = k")
    case False
    with submit_POST_store_cases [where db = db and k = k and i = i0 and env = env and K = K] Some id0 j t
    show ?thesis by (auto simp add: setIntent_other)
  next
    case True
    with j Some have "i0 = i" by simp
    with submit_POST_store_cases [where db = db and k = k and i = i0 and env = env and K = K] Some id0 True t
    show ?thesis by (auto simp add: setIntent_same)
  qed
qed

lemma sign_POST_status:
  assumes ok: "store_ok db" and j: "db j = Some i"
  shows "\<exists>i'. snd (sign_POST env db k w) j = Some i' \<and> status i' = status i"
proof (cases "db k")
  case None
  with j show ?thesis by (simp add: sign_POST_unknown)
next
  case (Some i0)
  with ok have id0: "intent_id i0 = k" by (simp add: store_ok_def)
  from Some have "snd (sign_POST env db k w) = db \<or>
         (w \<noteq> [] \<and> \<not> digestMismatch env i0 \<and>
          res_ok (fst (validateWrappedSignature env (account i0) (digest i0) w)) \<and>
          authorized i0 (res_ownerKh (fst (validateWrappedSignature env (account i0) (digest i0) w))) \<and>
          \<not> alreadySigned i0 (res_ownerKh (fst (validateWrappedSignature env (account i0) (digest i0) w))) \<and>
          snd (sign_POST env db k w) =
            setIntent (intent_id i0) (\<lambda>j. j\<lparr>signatures := appended env i0 w\<rparr>)
              (db(k \<mapsto> i0\<lparr>signatures := appended env i0 w\<rparr>)))"
    by (rule sign_POST_store_cases)
  then show ?thesis
  proof
    assume "snd (sign_POST env db k w) = db"
    with j show ?thesis by simp
  next
    assume "w \<noteq> [] \<and> \<not> digestMismatch env i0 \<and>
          res_ok (fst (validateWrappedSignature env (account i0) (digest i0) w)) \<and>
          authorized i0 (res_ownerKh (fst (validateWrappedSignature env (account i0) (digest i0) w))) \<and>
          \<not> alreadySigned i0 (res_ownerKh (fst (validateWrappedSignature env (account i0) (digest i0) w))) \<and>
          snd (sign_POST env db k w) =
            setIntent (intent_id i0) (\<lambda>j. j\<lparr>signatures := appended env i0 w\<rparr>)
              (db(k \<mapsto> i0\<lparr>signatures := appended env i0 w\<rparr>))"
    then have "snd (sign_POST env db k w) = db(k \<mapsto> i0\<lparr>signatures := appended env i0 w\<rparr>)"
      using id0 by (simp add: setIntent_own_key)
    with j Some show ?thesis by auto
  qed
qed

lemma submit_POST_getNonce_zero:
  assumes "\<forall>a. g a 0 = getNonce env a 0"
  shows "submit_POST K (env\<lparr>getNonce := g\<rparr>) db k = submit_POST K env db k"
proof -
  from assms have g: "g a 0 = getNonce env a 0" for a
    by simp
  show ?thesis
    by (simp add: submit_POST_def g Let_def split: option.splits SendResult.splits)
qed

lemma submit_POST_seqKey:
  assumes "db k = Some i"
  shows "response (submit_POST K env (db(k \<mapsto> i\<lparr>seqKey := sk\<rparr>)) k) = response (submit_POST K env db k) \<and>
         sent (submit_POST K env (db(k \<mapsto> i\<lparr>seqKey := sk\<rparr>)) k) = sent (submit_POST K env db k)"
  using assms
  by (simp add: submit_POST_def getIntent_def Let_def
      split: option.splits SendResult.splits sum.splits)

section \<open>Creation\<close>

lemma create_POST_created:
  assumes "create_POST env db body = (Created cid d t os, db')"
  shows "\<exists>cfgT n. getConfig env (body_multisigAddress body) (body_account body)
                  (body_externalKeyHash body) = Some (cfgT, os) \<and> os \<noteq> [] \<and>
           getNonce env (body_account body) (case body_seqKey body of None \<Rightarrow> 0 | Some sk \<Rightarrow> sk)
             = Some n \<and>
           computeDigest env (body_account body) (body_calls body) n = Some d \<and>
           cid = randomUUID env \<and> t = Number cfgT \<and>
           db' = db(cid \<mapsto>
                  \<lparr>intent_id = cid, account = body_account body, chainId = body_chainId body,
                   externalKeyHash = body_externalKeyHash body,
                   seqKey = (case body_seqKey body of None \<Rightarrow> 0 | Some sk \<Rightarrow> sk),
                   nonce = n, digest = d, calls = body_calls body, threshold = Number cfgT,
                   owners = os, signatures = [], status = Collecting, txHash = None\<rparr>)"
  using assms
  by (auto simp add: create_POST_def Let_def upsertIntent_def split: option.splits if_splits)

lemma Number_small: "n < 2 ^ 53 \<Longrightarrow> Number n = n"
  by (simp add: Number_def)

section \<open>The store invariant\<close>

text \<open>The empty store satisfies \<open>store_ok\<close> and every route keeps it.\<close>

lemma store_ok_empty: "store_ok Map.empty"
  by (simp add: store_ok_def)

lemma store_ok_update: "store_ok db \<Longrightarrow> intent_id i = k \<Longrightarrow> store_ok (db(k \<mapsto> i))"
  by (simp add: store_ok_def)

lemma store_ok_setIntent:
  "store_ok db \<Longrightarrow> (\<And>i. intent_id (f i) = intent_id i) \<Longrightarrow> store_ok (setIntent k f db)"
  by (auto simp add: store_ok_def setIntent_def split: option.splits)

lemma create_POST_store_ok: "store_ok db \<Longrightarrow> store_ok (snd (create_POST env db body))"
  by (auto simp add: create_POST_def Let_def upsertIntent_def store_ok_def
      split: option.splits prod.splits)

lemma sign_POST_store_ok:
  assumes "store_ok db"
  shows "store_ok (snd (sign_POST env db k w))"
proof (cases "db k")
  case None
  with assms show ?thesis by (simp add: sign_POST_unknown)
next
  case (Some i)
  with assms have idk: "intent_id i = k" by (simp add: store_ok_def)
  from Some have "snd (sign_POST env db k w) = db \<or>
         (w \<noteq> [] \<and> \<not> digestMismatch env i \<and>
          res_ok (fst (validateWrappedSignature env (account i) (digest i) w)) \<and>
          authorized i (res_ownerKh (fst (validateWrappedSignature env (account i) (digest i) w))) \<and>
          \<not> alreadySigned i (res_ownerKh (fst (validateWrappedSignature env (account i) (digest i) w))) \<and>
          snd (sign_POST env db k w) =
            setIntent (intent_id i) (\<lambda>j. j\<lparr>signatures := appended env i w\<rparr>)
              (db(k \<mapsto> i\<lparr>signatures := appended env i w\<rparr>)))"
    by (rule sign_POST_store_cases)
  with assms idk show ?thesis
    by (auto simp add: setIntent_own_key store_ok_update)
qed

lemma submit_POST_store_ok:
  assumes "store_ok db"
  shows "store_ok (store (submit_POST K env db k))"
proof (cases "db k")
  case None
  with assms show ?thesis by (simp add: submit_POST_unknown)
next
  case (Some i)
  from submit_POST_store_cases [where db = db and k = k and i = i and env = env and K = K] Some assms
  show ?thesis
    by (auto simp add: store_ok_setIntent)
qed

section \<open>Facts about the worked example\<close>

lemmas ex_hex_defs = ex_account_def ex_ownerA_def ex_ownerB_def ex_ownerC_def ex_ownerD_def
  ex_digest_def ex_keyHash_def ex_txHash_def ex_sigA_def ex_sigB_def ex_sigD_def

lemmas ex_defs = ex_env_def ex_intent_def ex_db_def ex_validate_def ex_intent1_def ex_intent2_def
  ex_db1_def ex_db2_def

lemma ex_long_length [simp]: "length ex_sigLong00 = 196" "length ex_sigLong01 = 196"
  by (simp_all add: ex_sigLong00_def ex_sigLong01_def)

lemma ex_long_neq [simp]:
  "ex_sigLong00 \<noteq> ex_sigLong01" "ex_sigLong00 \<noteq> ex_sigA" "ex_sigLong00 \<noteq> ex_sigB"
  "ex_sigLong00 \<noteq> ex_sigD" "ex_sigLong00 \<noteq> []"
  "ex_sigLong01 \<noteq> ex_sigA" "ex_sigLong01 \<noteq> ex_sigB" "ex_sigLong01 \<noteq> ex_sigD"
proof -
  show "ex_sigLong00 \<noteq> ex_sigLong01"
    by (simp add: ex_sigLong00_def ex_sigLong01_def)
  have "length ex_sigA = 8" "length ex_sigB = 8" "length ex_sigD = 8"
    by (simp_all add: ex_sigA_def ex_sigB_def ex_sigD_def)
  then show "ex_sigLong00 \<noteq> ex_sigA" "ex_sigLong00 \<noteq> ex_sigB" "ex_sigLong00 \<noteq> ex_sigD"
    "ex_sigLong01 \<noteq> ex_sigA" "ex_sigLong01 \<noteq> ex_sigB" "ex_sigLong01 \<noteq> ex_sigD"
    by (simp_all add: neq_by_length)
  show "ex_sigLong00 \<noteq> []"
    by (simp add: ex_sigLong00_def)
qed

lemma ex_long_prefix [simp]: "startsWith ''0x'' (toLowerCase ex_sigLong00)"
  by (simp add: ex_sigLong00_def startsWith_def toLowerCase_def toLowerChar_def)

lemma flipped_ex_sigLong00: "flipped ex_sigLong00 = ex_sigLong01"
  unfolding ex_sigLong00_def ex_sigLong01_def
  using flipped_append2 [of "''00''" "''0x'' @ replicate 192 (CHR ''c'')"]
  by (simp add: toLowerCase_def toLowerChar_def)

lemma ex_tryOnce_long:
  "tryOnce ex_env ex_account ex_digest ex_sigLong00 =
     \<lparr>res_ok = False, res_ownerKh = ''0x'', res_sig = ex_sigLong00\<rparr>"
  "tryOnce ex_env ex_account ex_digest ex_sigLong01 =
     \<lparr>res_ok = True, res_ownerKh = ex_ownerC, res_sig = ex_sigLong01\<rparr>"
  by (simp_all add: tryOnce_def ex_env_def ex_validate_def)

lemma ex_validate_long:
  "validateWrappedSignature ex_env ex_account ex_digest ex_sigLong00 =
     (\<lparr>res_ok = True, res_ownerKh = ex_ownerC, res_sig = ex_sigLong01\<rparr>,
      [ex_sigLong00, ex_sigLong01])"
  by (simp add: validate_retry ex_tryOnce_long flipped_ex_sigLong00)

lemma ex_validate_short:
  "validateWrappedSignature ex_env ex_account ex_digest ex_sigA =
     (\<lparr>res_ok = True, res_ownerKh = ex_ownerA, res_sig = ex_sigA\<rparr>, [ex_sigA])"
  "validateWrappedSignature ex_env ex_account ex_digest ex_sigB =
     (\<lparr>res_ok = True, res_ownerKh = ex_ownerB, res_sig = ex_sigB\<rparr>, [ex_sigB])"
  "validateWrappedSignature ex_env ex_account ex_digest ex_sigD =
     (\<lparr>res_ok = True, res_ownerKh = ex_ownerD, res_sig = ex_sigD\<rparr>, [ex_sigD])"
  by (simp_all add: validateWrappedSignature_def tryOnce_def ex_env_def ex_validate_def
      ex_sigA_def ex_sigB_def ex_sigD_def)

lemma ex_no_mismatch [simp]:
  "\<not> digestMismatch ex_env ex_intent" "\<not> digestMismatch ex_env ex_intent1"
  "\<not> digestMismatch ex_env ex_intent2"
  by (simp_all add: digestMismatch_def ex_defs)

lemma ex_fields [simp]:
  "account ex_intent = ex_account" "digest ex_intent = ex_digest"
  "account ex_intent1 = ex_account" "digest ex_intent1 = ex_digest"
  "account ex_intent2 = ex_account" "digest ex_intent2 = ex_digest"
  "intent_id ex_intent = ''intent-1''" "intent_id ex_intent1 = ''intent-1''"
  "intent_id ex_intent2 = ''intent-1''"
  "threshold ex_intent = 2" "threshold ex_intent1 = 2" "threshold ex_intent2 = 2"
  "nonce ex_intent = 7"
  by (simp_all add: ex_defs)

lemma ex_owner_lower [simp]:
  "toLowerCase ex_ownerA = ex_ownerA" "toLowerCase ex_ownerB = ex_ownerB"
  "toLowerCase ex_ownerC = ex_ownerC" "toLowerCase ex_ownerD = ex_ownerD"
  by (simp_all add: ex_hex_defs toLowerCase_def toLowerChar_def)

lemma ex_owner_distinct [simp]:
  "ex_ownerA \<noteq> ex_ownerB" "ex_ownerA \<noteq> ex_ownerC" "ex_ownerA \<noteq> ex_ownerD"
  "ex_ownerB \<noteq> ex_ownerA" "ex_ownerB \<noteq> ex_ownerC" "ex_ownerB \<noteq> ex_ownerD"
  "ex_ownerC \<noteq> ex_ownerA" "ex_ownerC \<noteq> ex_ownerB" "ex_ownerC \<noteq> ex_ownerD"
  "ex_ownerD \<noteq> ex_ownerA" "ex_ownerD \<noteq> ex_ownerB" "ex_ownerD \<noteq> ex_ownerC"
  by (simp_all add: ex_hex_defs)

lemma ex_db_lookup [simp]:
  "ex_db ''intent-1'' = Some ex_intent" "ex_db1 ''intent-1'' = Some ex_intent1"
  "ex_db2 ''intent-1'' = Some ex_intent2"
  by (simp_all add: ex_db_def ex_db1_def ex_db2_def)

lemma ex_sig_nonempty [simp]: "ex_sigA \<noteq> []" "ex_sigB \<noteq> []" "ex_sigD \<noteq> []"
  by (simp_all add: ex_hex_defs)

lemma ex_owners [simp]:
  "owners ex_intent = [ex_ownerA, ex_ownerB, ex_ownerC]"
  "owners ex_intent1 = [ex_ownerA, ex_ownerB, ex_ownerC]"
  "owners ex_intent2 = [ex_ownerA, ex_ownerB, ex_ownerC]"
  "signatures ex_intent = []"
  "signatures ex_intent1 = [\<lparr>ownerKeyHash = ex_ownerA, sig = ex_sigA, at = 1700000000000\<rparr>]"
  "signatures ex_intent2 = [\<lparr>ownerKeyHash = ex_ownerA, sig = ex_sigA, at = 1700000000000\<rparr>,
       \<lparr>ownerKeyHash = ex_ownerB, sig = ex_sigB, at = 1700000000000\<rparr>]"
  by (simp_all add: ex_intent_def ex_intent1_def ex_intent2_def)

lemma ex_now [simp]: "now ex_env = 1700000000000"
  by (simp add: ex_env_def)

lemma ex_sign_A: "sign_POST ex_env ex_db ''intent-1'' ex_sigA = (SignOk 1 2 (Some False), ex_db1)"
proof -
  have "sign_POST ex_env ex_db ''intent-1'' ex_sigA =
          (SignOk (length (appended ex_env ex_intent ex_sigA)) (threshold ex_intent)
             (Some (threshold ex_intent \<le> length (appended ex_env ex_intent ex_sigA))),
           setIntent (intent_id ex_intent) (\<lambda>j. j\<lparr>signatures := appended ex_env ex_intent ex_sigA\<rparr>)
             (ex_db(''intent-1'' \<mapsto> ex_intent\<lparr>signatures := appended ex_env ex_intent ex_sigA\<rparr>)))"
    by (rule sign_POST_append) (simp_all add: ex_validate_short authorized_def alreadySigned_def)
  moreover have "appended ex_env ex_intent ex_sigA = signatures ex_intent1"
    by (simp add: appended_def ex_validate_short)
  ultimately show ?thesis
    by (simp add: setIntent_def ex_db_def ex_db1_def ex_intent1_def)
qed

lemma ex_sign_B: "sign_POST ex_env ex_db1 ''intent-1'' ex_sigB = (SignOk 2 2 (Some True), ex_db2)"
proof -
  have "sign_POST ex_env ex_db1 ''intent-1'' ex_sigB =
          (SignOk (length (appended ex_env ex_intent1 ex_sigB)) (threshold ex_intent1)
             (Some (threshold ex_intent1 \<le> length (appended ex_env ex_intent1 ex_sigB))),
           setIntent (intent_id ex_intent1) (\<lambda>j. j\<lparr>signatures := appended ex_env ex_intent1 ex_sigB\<rparr>)
             (ex_db1(''intent-1'' \<mapsto> ex_intent1\<lparr>signatures := appended ex_env ex_intent1 ex_sigB\<rparr>)))"
    by (rule sign_POST_append) (simp_all add: ex_validate_short authorized_def alreadySigned_def)
  moreover have "appended ex_env ex_intent1 ex_sigB = signatures ex_intent2"
    by (simp add: appended_def ex_validate_short)
  ultimately show ?thesis
    by (simp add: setIntent_def ex_db1_def ex_db2_def ex_intent1_def ex_intent2_def)
qed

lemma ex_sign_A_again: "sign_POST ex_env ex_db2 ''intent-1'' ex_sigA = (SignOk 2 2 None, ex_db2)"
proof -
  have "sign_POST ex_env ex_db2 ''intent-1'' ex_sigA =
          (SignOk (length (signatures ex_intent2)) (threshold ex_intent2) None, ex_db2)"
    by (rule sign_POST_duplicate) (simp_all add: ex_validate_short authorized_def alreadySigned_def)
  then show ?thesis by simp
qed

lemma env_reject_all_try:
  "tryOnce env_reject_all a d s = \<lparr>res_ok = False, res_ownerKh = ex_ownerA, res_sig = s\<rparr>"
  by (simp add: tryOnce_def env_reject_all_def)

lemma ex_wf [simp]: "wf_intent K_ex ex_intent2"
  by (simp add: wf_intent_def ex_intent2_def ex_intent_def wf_call_def ex_hex_defs
      isAddress_def addressRegex_def toLowerCase_def toLowerChar_def
      isHexBytes_def hexBytes_def nibble_def)

lemma ex_executionData:
  "\<exists>p. executionData K_ex ex_intent2 = Some p \<and>
       hexToBytes p = Some (spec_payload ex_intent2)"
  using executionData_wf [OF ex_wf] by (auto simp add: hexToBytes_def)

lemma ex_intent2_fields [simp]:
  "status ex_intent2 = Collecting" "nonce ex_intent2 = 7" "seqKey ex_intent2 = 0"
  by (simp_all add: ex_intent2_def ex_intent_def)

lemma ex_env_fields [simp]:
  "walletClient ex_env = Some (\<lambda>a m d. Sent ex_txHash)"
  "getNonce ex_env a k = Some (if k = 0 then 7 else 18446744073709551616 * k)"
  "waitForTransactionReceipt ex_env h = Inr Success"
  by (simp_all add: ex_env_def)

text \<open>
  The encoders on strings outside the lower-case, even-length case: the digits of a
  \<open>bytes\<close> parameter keep their case, an odd number of digits is padded on the right, and
  an address of mixed case is accepted only with its checksum (here under the hash of the
  example, whose nibbles are 2 at even and 8 at odd positions).
\<close>

lemma encodeBytes_keeps_case:
  "encodeBytes ''0x0A0A00'' = Some (concatHex [hexWord 3, ''0x0A0A00'' @ replicate 58 (CHR ''0'')])"
  by (simp add: encodeBytes_def size_hex_def startsWith_def padHexRight_def
      numeral_3_eq_3 [symmetric])

lemma encodeBytes_odd_length:
  "encodeBytes ''0xabc'' = Some (concatHex [hexWord 2, ''0xabc'' @ replicate 61 (CHR ''0'')])"
  by (simp add: encodeBytes_def size_hex_def startsWith_def padHexRight_def
      numeral_2_eq_2 [symmetric])

lemma ex_checksum:
  "isAddress K_ex ''0x00000000000000000000000000000000000000bb''"
  "isAddress K_ex ''0x00000000000000000000000000000000000000bB''"
  "\<not> isAddress K_ex ''0x00000000000000000000000000000000000000Bb''"
  by (simp_all add: isAddress_def addressRegex_def checksumAddress_def toLowerCase_def
      toLowerChar_def toUpperChar_def hashNibble_def K_ex_def nibble_def upt_rec [of 0]
      upt_rec [of "Suc 0"])

section \<open>The claims\<close>

subsection \<open>C1: terminal states\<close>

text \<open>
  Claim C1 as stated does not hold. The submit route never reads the status: an intent
  whose earlier broadcast failed is broadcast again when its signatures and its nonce
  still pass, and a successful receipt then turns \<open>failed\<close> into \<open>confirmed\<close>.
\<close>

theorem failed_intent_resubmitted_counterexample:
  "map_option status (ex_db_failed ''intent-1'') = Some Failed \<and>
   map_option status (store (submit_POST K_ex ex_env ex_db_failed ''intent-1'') ''intent-1'')
     = Some Confirmed"
proof -
  from ex_executionData obtain p where p: "executionData K_ex ex_intent2 = Some p"
    by blast
  have "submit_POST K_ex ex_env ex_db_failed ''intent-1'' =
     \<lparr>response = SubmitOk ex_txHash Success,
      store = setIntent (intent_id (ex_intent2\<lparr>status := Failed\<rparr>)) (\<lambda>j. j\<lparr>status := Confirmed\<rparr>)
                (setIntent (intent_id (ex_intent2\<lparr>status := Failed\<rparr>))
                   (\<lambda>j. j\<lparr>status := Submitted, txHash := Some ex_txHash\<rparr>) ex_db_failed),
      sent = Some (account (ex_intent2\<lparr>status := Failed\<rparr>), MODE_SINGLE_WITH_OPDATA, p)\<rparr>"
    by (rule submit_POST_confirmed [where wc = "\<lambda>a m d. Sent ex_txHash"])
       (simp_all add: ex_db_failed_def p)
  then show ?thesis
    by (simp add: ex_db_failed_def setIntent_def)
qed

text \<open>
  Claim C1 (amended). In a store where every record sits under its own identifier, take
  an intent whose status is \<open>confirmed\<close> or \<open>failed\<close>. Submitting a signature, for any
  intent, leaves its status as it is. Submitting an intent leaves its status as it is
  whenever nothing is broadcast; when the handler does broadcast, the status afterwards
  is again \<open>confirmed\<close> or \<open>failed\<close>, by the new outcome.
\<close>

theorem terminal_status_stays_terminal:
  assumes "store_ok db" and "db j = Some i" and "status i = Confirmed \<or> status i = Failed"
  shows "(\<exists>i'. snd (sign_POST env db k w) j = Some i' \<and> status i' = status i) \<and>
         (\<exists>i'. store (submit_POST K env db k) j = Some i' \<and>
                (status i' = Confirmed \<or> status i' = Failed) \<and>
                (sent (submit_POST K env db k) = None \<longrightarrow> status i' = status i))"
  using assms sign_POST_status [of db j i env k w]
    submit_POST_terminal [where db = db and j = j and i = i and env = env and k = k and K = K]
  by blast

theorem terminal_status_stays_terminal_witness:
  "store_ok ex_db_failed \<and>
   ex_db_failed ''intent-1'' = Some (ex_intent2\<lparr>status := Failed\<rparr>) \<and>
   status (ex_intent2\<lparr>status := Failed\<rparr>) = Failed \<and>
   (\<exists>i'. snd (sign_POST ex_env ex_db_failed ''intent-1'' ex_sigA) ''intent-1'' = Some i' \<and>
         status i' = Failed) \<and>
   sent (submit_POST K_ex env_nonce_advanced ex_db_failed ''intent-1'') = None \<and>
   (\<exists>i'. store (submit_POST K_ex env_nonce_advanced ex_db_failed ''intent-1'') ''intent-1'' = Some i' \<and>
         status i' = Failed) \<and>
   (\<exists>i'. store (submit_POST K_ex ex_env ex_db_failed ''intent-1'') ''intent-1'' = Some i' \<and>
         (status i' = Confirmed \<or> status i' = Failed))"
proof -
  have so: "store_ok ex_db_failed"
    by (simp add: store_ok_def ex_db_failed_def)
  have look: "ex_db_failed ''intent-1'' = Some (ex_intent2\<lparr>status := Failed\<rparr>)"
    by (simp add: ex_db_failed_def)
  have st: "status (ex_intent2\<lparr>status := Failed\<rparr>) = Confirmed \<or>
            status (ex_intent2\<lparr>status := Failed\<rparr>) = Failed"
    by simp
  from ex_executionData obtain p where p: "executionData K_ex ex_intent2 = Some p"
    by blast
  have "submit_POST K_ex env_nonce_advanced ex_db_failed ''intent-1'' =
          \<lparr>response = NonceMismatch (nonce (ex_intent2\<lparr>status := Failed\<rparr>)) 8,
           store = ex_db_failed, sent = None\<rparr>"
    by (rule submit_POST_mismatch [where wc = "\<lambda>a m d. Sent ex_txHash" and p = p])
       (simp_all add: look p env_nonce_advanced_def ex_env_def)
  then have ns: "sent (submit_POST K_ex env_nonce_advanced ex_db_failed ''intent-1'') = None"
    by simp
  from terminal_status_stays_terminal
         [OF so look st, where env = ex_env and k = "''intent-1''" and w = ex_sigA and K = K_ex]
       terminal_status_stays_terminal
         [OF so look st, where env = env_nonce_advanced and k = "''intent-1''" and w = ex_sigA
            and K = K_ex]
       so look ns
  show ?thesis by auto
qed

subsection \<open>C2: the stored threshold\<close>

text \<open>
  Claim C2 as stated does not hold. The create route checks only that the owner list is
  not empty: a configuration read of threshold 0, or of threshold 5 with one owner, is
  stored as read.
\<close>

theorem created_threshold_counterexample:
  "fst (create_POST env_zero_threshold ex_empty ex_body) =
     Created ''intent-1'' ex_digest 0 [ex_ownerA] \<and>
   map_option threshold (snd (create_POST env_zero_threshold ex_empty ex_body) ''intent-1'')
     = Some 0 \<and>
   map_option owners (snd (create_POST env_zero_threshold ex_empty ex_body) ''intent-1'')
     = Some [ex_ownerA] \<and>
   fst (create_POST env_threshold_above ex_empty ex_body) =
     Created ''intent-1'' ex_digest 5 [ex_ownerA] \<and>
   map_option threshold (snd (create_POST env_threshold_above ex_empty ex_body) ''intent-1'')
     = Some 5 \<and>
   map_option owners (snd (create_POST env_threshold_above ex_empty ex_body) ''intent-1'')
     = Some [ex_ownerA]"
  by (simp add: create_POST_def env_zero_threshold_def env_threshold_above_def ex_env_def
      ex_body_def ex_empty_def Let_def upsertIntent_def Number_def)

text \<open>
  Claim C2 (amended). For every intent record returned by create-intent, the stored
  threshold is the number the policy-config read returned (as \<open>Number\<close> converts it, exact
  below \<open>2^53\<close>), the stored owners are the owner list it returned, and that list is not
  empty. So the stored threshold lies between 1 and the number of owners whenever the
  configuration read does.
\<close>

theorem created_threshold_is_config_threshold:
  assumes "create_POST env db body = (Created cid d t os, db')"
  shows "\<exists>cfgT i. getConfig env (body_multisigAddress body) (body_account body)
                    (body_externalKeyHash body) = Some (cfgT, os) \<and>
           db' cid = Some i \<and> threshold i = Number cfgT \<and> t = Number cfgT \<and>
           owners i = os \<and> os \<noteq> [] \<and>
           (cfgT < 2 ^ 53 \<longrightarrow> threshold i = cfgT) \<and>
           (cfgT < 2 ^ 53 \<and> 1 \<le> cfgT \<and> cfgT \<le> length os \<longrightarrow>
              1 \<le> threshold i \<and> threshold i \<le> length (owners i))"
proof -
  from create_POST_created [OF assms] obtain cfgT n where
    cfg: "getConfig env (body_multisigAddress body) (body_account body)
            (body_externalKeyHash body) = Some (cfgT, os)" "os \<noteq> []" "t = Number cfgT"
    and db': "db' = db(cid \<mapsto>
                  \<lparr>intent_id = cid, account = body_account body, chainId = body_chainId body,
                   externalKeyHash = body_externalKeyHash body,
                   seqKey = (case body_seqKey body of None \<Rightarrow> 0 | Some sk \<Rightarrow> sk),
                   nonce = n, digest = d, calls = body_calls body, threshold = Number cfgT,
                   owners = os, signatures = [], status = Collecting, txHash = None\<rparr>)"
    by blast
  from cfg db' show ?thesis
    by (auto simp add: Number_small)
qed

theorem created_threshold_is_config_threshold_witness:
  "create_POST ex_env Map.empty ex_body =
     (Created ''intent-1'' ex_digest 2 [ex_ownerA, ex_ownerB, ex_ownerC],
      Map.empty(''intent-1'' \<mapsto> ex_intent)) \<and>
   getConfig ex_env (body_multisigAddress ex_body) (body_account ex_body)
     (body_externalKeyHash ex_body) = Some (2, [ex_ownerA, ex_ownerB, ex_ownerC]) \<and>
   (2 :: nat) < 2 ^ 53 \<and> (1 :: nat) \<le> 2 \<and> 2 \<le> length [ex_ownerA, ex_ownerB, ex_ownerC] \<and>
   (\<exists>i. (Map.empty(''intent-1'' \<mapsto> ex_intent)) ''intent-1'' = Some i \<and>
        1 \<le> threshold i \<and> threshold i \<le> length (owners i))"
proof -
  have run: "create_POST ex_env Map.empty ex_body =
     (Created ''intent-1'' ex_digest 2 [ex_ownerA, ex_ownerB, ex_ownerC],
      Map.empty(''intent-1'' \<mapsto> ex_intent))"
    by (simp add: create_POST_def ex_env_def ex_body_def Let_def upsertIntent_def Number_def
        ex_intent_def)
  have cfg: "getConfig ex_env (body_multisigAddress ex_body) (body_account ex_body)
     (body_externalKeyHash ex_body) = Some (2, [ex_ownerA, ex_ownerB, ex_ownerC])"
    by (simp add: ex_env_def)
  from created_threshold_is_config_threshold [OF run] run cfg show ?thesis
    by auto
qed

subsection \<open>C3: validation attempts\<close>

text \<open>
  Claim C3 as stated does not hold. A signature string shorter than 196 characters whose
  first attempt is invalid is not retried: the verification entry point is called once.
\<close>

theorem short_signature_not_retried:
  "\<not> res_ok (tryOnce env_reject_all ex_account ex_digest ''0x1b00'') \<and>
   snd (validateWrappedSignature env_reject_all ex_account ex_digest ''0x1b00'') = [''0x1b00'']"
  by (simp add: validateWrappedSignature_def env_reject_all_try Let_def toLowerCase_length)

text \<open>
  Claim C3 (amended). Validation is first attempted on the string as received. It is
  retried, exactly once, when that attempt is invalid and the lower-cased string starts
  with \<open>0x\<close> and has at least 196 characters; a shorter or unprefixed string is not
  retried. The retried variant is the lower-cased string with its last two characters
  replaced: \<open>01\<close> by \<open>00\<close>, anything else by \<open>01\<close>. The result is valid exactly when one
  of the attempts made is valid. When none is, submit-signature changes nothing in the
  store and, past the empty-signature and digest checks, answers invalid-signature.
\<close>

theorem validateWrappedSignature_attempts:
  "snd (validateWrappedSignature env a d w) =
     (if \<not> res_ok (tryOnce env a d w) \<and> startsWith ''0x'' (toLowerCase w) \<and> 196 \<le> length w
      then [w, flipped w] else [w]) \<and>
   sliceLast2 (flipped w) = (if sliceLast2 (toLowerCase w) = ''01'' then ''00'' else ''01'') \<and>
   (2 \<le> length w \<longrightarrow> sliceButLast2 (flipped w) = sliceButLast2 (toLowerCase w)) \<and>
   (res_ok (fst (validateWrappedSignature env a d w)) \<longleftrightarrow>
      list_ex (\<lambda>s. res_ok (tryOnce env a d s)) (snd (validateWrappedSignature env a d w))) \<and>
   (db k = Some i \<and> a = account i \<and> d = digest i \<and>
    \<not> list_ex (\<lambda>s. res_ok (tryOnce env a d s)) (snd (validateWrappedSignature env a d w)) \<longrightarrow>
      snd (sign_POST env db k w) = db \<and>
      (w \<noteq> [] \<and> \<not> digestMismatch env i \<longrightarrow> fst (sign_POST env db k w) = InvalidSignature))"
proof -
  let ?V = "validateWrappedSignature env a d w"
  have tr: "snd ?V =
     (if \<not> res_ok (tryOnce env a d w) \<and> startsWith ''0x'' (toLowerCase w) \<and> 196 \<le> length w
      then [w, flipped w] else [w])"
    by (auto simp add: validateWrappedSignature_def Let_def toLowerCase_length)
  have ok: "res_ok (fst ?V) \<longleftrightarrow> list_ex (\<lambda>s. res_ok (tryOnce env a d s)) (snd ?V)"
    by (auto simp add: validateWrappedSignature_def Let_def)
  have rej: "snd (sign_POST env db k w) = db \<and>
      (w \<noteq> [] \<and> \<not> digestMismatch env i \<longrightarrow> fst (sign_POST env db k w) = InvalidSignature)"
    if "db k = Some i" "a = account i" "d = digest i"
       "\<not> list_ex (\<lambda>s. res_ok (tryOnce env a d s)) (snd ?V)"
  proof -
    from that ok have nok: "\<not> res_ok (fst (validateWrappedSignature env (account i) (digest i) w))"
      by simp
    with that(1) show ?thesis
      by (simp add: sign_POST_def getIntent_def Let_def)
  qed
  from tr ok rej flipped_last2 [of w] flipped_prefix [of w] show ?thesis
    by blast
qed

theorem validateWrappedSignature_attempts_witness:
  "\<not> res_ok (tryOnce ex_env ex_account ex_digest ex_sigLong00) \<and>
   startsWith ''0x'' (toLowerCase ex_sigLong00) \<and> 196 \<le> length ex_sigLong00 \<and>
   snd (validateWrappedSignature ex_env ex_account ex_digest ex_sigLong00)
     = [ex_sigLong00, ex_sigLong01] \<and>
   sliceLast2 ex_sigLong01 = ''01'' \<and>
   res_ok (fst (validateWrappedSignature ex_env ex_account ex_digest ex_sigLong00)) \<and>
   ex_db ''intent-1'' = Some ex_intent \<and> ''0x1b00'' \<noteq> [] \<and>
   \<not> digestMismatch env_reject_all ex_intent \<and>
   sign_POST env_reject_all ex_db ''intent-1'' ''0x1b00'' = (InvalidSignature, ex_db)"
proof -
  have "sliceLast2 ex_sigLong00 = ''00''"
    unfolding ex_sigLong00_def by (rule sliceLast2_append2) simp
  then have low: "sliceLast2 (toLowerCase ex_sigLong00) = ''00''"
    by (simp add: sliceLast2_lower) (simp add: toLowerCase_def toLowerChar_def)
  have rej: "\<not> list_ex (\<lambda>s. res_ok (tryOnce env_reject_all ex_account ex_digest s))
               (snd (validateWrappedSignature env_reject_all ex_account ex_digest ''0x1b00''))"
    by (simp add: env_reject_all_try list_ex_iff)
  have nm: "\<not> digestMismatch env_reject_all ex_intent"
    by (simp add: digestMismatch_def env_reject_all_def ex_env_def ex_intent_def)
  from validateWrappedSignature_attempts
         [of ex_env ex_account ex_digest ex_sigLong00 ex_db "''intent-1''" ex_intent]
       validateWrappedSignature_attempts
         [of env_reject_all ex_account ex_digest "''0x1b00''" ex_db "''intent-1''" ex_intent]
       low rej nm
  show ?thesis
    by (simp add: ex_tryOnce_long flipped_ex_sigLong00 prod_eq_iff)
qed

subsection \<open>C4: the nonce check\<close>

text \<open>
  Claim C4. For an intent with at least \<open>threshold\<close> signatures, when the nonce read for
  sequence 0 differs from the stored nonce, submit-intent leaves the store as it is and
  broadcasts nothing; it fails, and where a relayer is configured and the payload
  encodes, the failure is the nonce mismatch carrying the stored and the current nonce.
\<close>

theorem stale_nonce_blocks_submission:
  assumes "db k = Some i" and "threshold i \<le> length (signatures i)"
    and "getNonce env (account i) 0 = Some cur" and "cur \<noteq> nonce i"
  shows "store (submit_POST K env db k) = db \<and> sent (submit_POST K env db k) = None \<and>
         response (submit_POST K env db k) \<in> {RelayerMissing, SubmitThrew, NonceMismatch (nonce i) cur} \<and>
         (walletClient env \<noteq> None \<and> executionData K i \<noteq> None \<longrightarrow>
            response (submit_POST K env db k) = NonceMismatch (nonce i) cur)"
  using assms
  by (auto simp add: submit_POST_def getIntent_def split: option.splits)

theorem stale_nonce_blocks_submission_witness:
  "ex_db2 ''intent-1'' = Some ex_intent2 \<and> threshold ex_intent2 \<le> length (signatures ex_intent2) \<and>
   getNonce env_nonce_advanced (account ex_intent2) 0 = Some 8 \<and> 8 \<noteq> nonce ex_intent2 \<and>
   walletClient env_nonce_advanced \<noteq> None \<and> executionData K_ex ex_intent2 \<noteq> None \<and>
   submit_POST K_ex env_nonce_advanced ex_db2 ''intent-1'' =
     \<lparr>response = NonceMismatch 7 8, store = ex_db2, sent = None\<rparr>"
proof -
  have h: "threshold ex_intent2 \<le> length (signatures ex_intent2)"
    "getNonce env_nonce_advanced (account ex_intent2) 0 = Some 8" "8 \<noteq> nonce ex_intent2"
    "walletClient env_nonce_advanced \<noteq> None" "executionData K_ex ex_intent2 \<noteq> None"
    using ex_executionData by (auto simp add: env_nonce_advanced_def ex_env_def)
  from stale_nonce_blocks_submission
         [where db = ex_db2 and k = "''intent-1''" and i = ex_intent2
            and env = env_nonce_advanced and cur = 8 and K = K_ex]
       h
  show ?thesis
    by (cases "submit_POST K_ex env_nonce_advanced ex_db2 ''intent-1''") simp
qed

subsection \<open>C5: the execution payload\<close>

text \<open>
  Claim C5. Take an intent whose stored fields are well formed: every signature, the
  policy key identifier and the data of every call are \<open>0x\<close> followed by an even number
  of hex digits, the key identifier has 32 bytes, every call target is an address that
  \<open>isAddress\<close> accepts, and the nonce and the call amounts are below \<open>2 ^ 256\<close>. Then the
  submit route builds a payload, and the bytes that payload denotes are exactly the
  layout of the specification: the signatures in stored order as an ABI \<open>bytes[]\<close>,
  followed by the 32-byte policy key identifier and one \<open>0x00\<close> byte, with the nonce as
  32 bytes in front, ABI-encoded together with the call list as
  \<open>((address,uint256,bytes)[], bytes)\<close>. Whatever the route broadcasts denotes these
  bytes and is sent to the intent's account in the mode with operation data; and it is
  broadcast once the signatures reach the threshold, a relayer is configured and the
  nonce of sequence 0 is the stored one. The payload is compared as bytes: as a string
  it keeps the case of the stored hex digits.
\<close>

theorem executionData_layout:
  assumes "wf_intent K i"
  shows "(\<exists>q. executionData K i = Some q \<and>
              hexToBytes q =
                Some (spec_executionData (map call_bytes (calls i)) (nonce i)
                        (map (\<lambda>s. hexBytes (sig s)) (signatures i))
                        (hexBytes (externalKeyHash i)))) \<and>
         length (hexBytes (externalKeyHash i)) = 32 \<and> length (u256 (nonce i)) = 32 \<and>
         (db k = Some i \<and> sent (submit_POST K env db k) = Some (a, m, p) \<longrightarrow>
            threshold i \<le> length (signatures i) \<and> a = account i \<and>
            m = MODE_SINGLE_WITH_OPDATA \<and>
            hexToBytes p =
              Some (spec_executionData (map call_bytes (calls i)) (nonce i)
                      (map (\<lambda>s. hexBytes (sig s)) (signatures i))
                      (hexBytes (externalKeyHash i)))) \<and>
         (db k = Some i \<and> threshold i \<le> length (signatures i) \<and> walletClient env \<noteq> None \<and>
          getNonce env (account i) 0 = Some (nonce i) \<longrightarrow>
            (\<exists>q. sent (submit_POST K env db k) =
                   Some (account i, MODE_SINGLE_WITH_OPDATA, q) \<and>
                 hexToBytes q =
                   Some (spec_executionData (map call_bytes (calls i)) (nonce i)
                           (map (\<lambda>s. hexBytes (sig s)) (signatures i))
                           (hexBytes (externalKeyHash i)))))"
proof -
  let ?P = "spec_executionData (map call_bytes (calls i)) (nonce i)
              (map (\<lambda>s. hexBytes (sig s)) (signatures i)) (hexBytes (externalKeyHash i))"
  from executionData_wf [OF assms] obtain q where q: "executionData K i = Some q"
    and qb: "hexToBytes q = Some ?P"
    by (auto simp add: spec_payload_def hexToBytes_def)
  from assms have l: "length (hexBytes (externalKeyHash i)) = 32"
    by (simp add: wf_intent_def)
  have s: "threshold i \<le> length (signatures i) \<and> a = account i \<and>
            m = MODE_SINGLE_WITH_OPDATA \<and> hexToBytes p = Some ?P"
    if "db k = Some i" "sent (submit_POST K env db k) = Some (a, m, p)"
    using submit_POST_sent [OF that] q qb by auto
  have b: "sent (submit_POST K env db k) = Some (account i, MODE_SINGLE_WITH_OPDATA, q)"
    if "db k = Some i" "threshold i \<le> length (signatures i)" "walletClient env \<noteq> None"
       "getNonce env (account i) 0 = Some (nonce i)"
    using that q
      submit_POST_broadcast [where db = db and k = k and i = i and env = env and K = K and p = q]
    by auto
  have u: "length (u256 (nonce i)) = 32"
    by simp
  from q qb l u s b show ?thesis
    by blast
qed

theorem executionData_layout_witness:
  "wf_intent K_ex ex_intent2 \<and>
   (\<exists>q. executionData K_ex ex_intent2 = Some q \<and>
        hexToBytes q =
          Some (spec_executionData
                  [(hexBytes ''0x00000000000000000000000000000000000000bb'', 5, [])] 7
                  [ [0x0a, 0x0a, 0x00], [0x0b, 0x0b, 0x00] ] (hexBytes ex_keyHash))) \<and>
   length (hexBytes ex_keyHash) = 32 \<and>
   ex_db2 ''intent-1'' = Some ex_intent2 \<and>
   threshold ex_intent2 \<le> length (signatures ex_intent2) \<and> walletClient ex_env \<noteq> None \<and>
   getNonce ex_env (account ex_intent2) 0 = Some (nonce ex_intent2) \<and>
   (\<exists>q. sent (submit_POST K_ex ex_env ex_db2 ''intent-1'') =
          Some (ex_account, MODE_SINGLE_WITH_OPDATA, q) \<and>
        hexToBytes q =
          Some (spec_executionData
                  [(hexBytes ''0x00000000000000000000000000000000000000bb'', 5, [])] 7
                  [ [0x0a, 0x0a, 0x00], [0x0b, 0x0b, 0x00] ] (hexBytes ex_keyHash)))"
proof -
  have c: "map call_bytes (calls ex_intent2) =
             [(hexBytes ''0x00000000000000000000000000000000000000bb'', 5, [])]"
    by (simp add: ex_intent2_def ex_intent_def call_bytes_def hexBytes_def)
  have g: "map (\<lambda>s. hexBytes (sig s)) (signatures ex_intent2) =
             [ [0x0a, 0x0a, 0x00], [0x0b, 0x0b, 0x00] ]"
    by (simp add: ex_sigA_def ex_sigB_def hexBytes_def nibbleValue_def nibble_def)
  have k: "externalKeyHash ex_intent2 = ex_keyHash"
    by (simp add: ex_intent2_def ex_intent_def)
  from executionData_layout
         [OF ex_wf, where db = ex_db2 and k = "''intent-1''" and env = ex_env
            and a = ex_account and m = MODE_SINGLE_WITH_OPDATA and p = "''0x''"]
       c g k
  show ?thesis by simp
qed

subsection \<open>C6: signers outside the owner set\<close>

text \<open>
  Claim C6. When the wrapped signature validates and the recovered owner is not among
  the intent's owners, submit-signature fails and the store, with the intent's
  signatures, is unchanged, whatever signatures are already stored; past the
  empty-signature and digest checks the failure is signer-not-authorized.
\<close>

theorem unauthorized_signer_rejected:
  assumes "db k = Some i"
    and "res_ok (fst (validateWrappedSignature env (account i) (digest i) w))"
    and "\<not> authorized i (res_ownerKh (fst (validateWrappedSignature env (account i) (digest i) w)))"
  shows "snd (sign_POST env db k w) = db \<and>
         fst (sign_POST env db k w) \<in> {MissingWrappedSignature, DigestMismatch, SignerNotAuthorized} \<and>
         (w \<noteq> [] \<and> \<not> digestMismatch env i \<longrightarrow> fst (sign_POST env db k w) = SignerNotAuthorized)"
  using assms
  by (simp add: sign_POST_def getIntent_def Let_def authorized_def)

theorem unauthorized_signer_rejected_witness:
  "ex_db2 ''intent-1'' = Some ex_intent2 \<and>
   res_ok (fst (validateWrappedSignature ex_env (account ex_intent2) (digest ex_intent2) ex_sigD)) \<and>
   \<not> authorized ex_intent2
       (res_ownerKh (fst (validateWrappedSignature ex_env (account ex_intent2) (digest ex_intent2) ex_sigD))) \<and>
   ex_sigD \<noteq> [] \<and> \<not> digestMismatch ex_env ex_intent2 \<and>
   length (signatures ex_intent2) = 2 \<and>
   sign_POST ex_env ex_db2 ''intent-1'' ex_sigD = (SignerNotAuthorized, ex_db2)"
proof -
  have v: "res_ok (fst (validateWrappedSignature ex_env (account ex_intent2) (digest ex_intent2) ex_sigD))"
    by (simp add: ex_validate_short)
  have na: "\<not> authorized ex_intent2
       (res_ownerKh (fst (validateWrappedSignature ex_env (account ex_intent2) (digest ex_intent2) ex_sigD)))"
    by (simp add: ex_validate_short authorized_def)
  from unauthorized_signer_rejected
         [where db = ex_db2 and k = "''intent-1''" and i = ex_intent2 and env = ex_env
            and w = ex_sigD]
       v na
  show ?thesis
    by (simp add: prod_eq_iff)
qed

subsection \<open>C7: duplicate signatures\<close>

text \<open>
  Claim C7 as stated does not hold. The count reported for a duplicate is the number of
  signatures stored now, not the count reported when that owner first signed: after
  \<open>A\<close> (count 1) and \<open>B\<close> (count 2), \<open>A\<close> again is answered with count 2.
\<close>

theorem resubmission_after_other_owner_counterexample:
  "fst (sign_POST ex_env ex_db ''intent-1'' ex_sigA) = SignOk 1 2 (Some False) \<and>
   fst (sign_POST ex_env
          (snd (sign_POST ex_env (snd (sign_POST ex_env ex_db ''intent-1'' ex_sigA))
                  ''intent-1'' ex_sigB))
          ''intent-1'' ex_sigA) = SignOk 2 2 None"
  by (simp add: ex_sign_A ex_sign_B ex_sign_A_again)

text \<open>
  Claim C7 (amended). A valid signature of an owner who already has a stored signature
  succeeds without changing the store and reports the number of signatures stored at
  that moment. Submitting a signature again right after it was accepted reports the same
  count and threshold and changes nothing.
\<close>

theorem duplicate_signature_idempotent:
  "(db k = Some i \<and> w \<noteq> [] \<and> \<not> digestMismatch env i \<and>
    res_ok (fst (validateWrappedSignature env (account i) (digest i) w)) \<and>
    authorized i (res_ownerKh (fst (validateWrappedSignature env (account i) (digest i) w))) \<and>
    alreadySigned i (res_ownerKh (fst (validateWrappedSignature env (account i) (digest i) w))) \<longrightarrow>
      sign_POST env db k w = (SignOk (length (signatures i)) (threshold i) None, db)) \<and>
   (sign_POST env db k w = (SignOk n M r, db') \<longrightarrow>
      sign_POST env db' k w = (SignOk n M None, db'))"
  using sign_POST_duplicate [of db k i w env] sign_POST_again [of env db k w n M r db']
  by blast

theorem duplicate_signature_idempotent_witness:
  "ex_db2 ''intent-1'' = Some ex_intent2 \<and> ex_sigA \<noteq> [] \<and> \<not> digestMismatch ex_env ex_intent2 \<and>
   res_ok (fst (validateWrappedSignature ex_env (account ex_intent2) (digest ex_intent2) ex_sigA)) \<and>
   authorized ex_intent2
     (res_ownerKh (fst (validateWrappedSignature ex_env (account ex_intent2) (digest ex_intent2) ex_sigA))) \<and>
   alreadySigned ex_intent2
     (res_ownerKh (fst (validateWrappedSignature ex_env (account ex_intent2) (digest ex_intent2) ex_sigA))) \<and>
   sign_POST ex_env ex_db2 ''intent-1'' ex_sigA = (SignOk (length (signatures ex_intent2)) (threshold ex_intent2) None, ex_db2) \<and>
   sign_POST ex_env ex_db ''intent-1'' ex_sigA = (SignOk 1 2 (Some False), ex_db1) \<and>
   sign_POST ex_env ex_db1 ''intent-1'' ex_sigA = (SignOk 1 2 None, ex_db1)"
proof -
  have h: "res_ok (fst (validateWrappedSignature ex_env (account ex_intent2) (digest ex_intent2) ex_sigA))"
    "authorized ex_intent2
     (res_ownerKh (fst (validateWrappedSignature ex_env (account ex_intent2) (digest ex_intent2) ex_sigA)))"
    "alreadySigned ex_intent2
     (res_ownerKh (fst (validateWrappedSignature ex_env (account ex_intent2) (digest ex_intent2) ex_sigA)))"
    by (simp_all add: ex_validate_short authorized_def alreadySigned_def)
  from duplicate_signature_idempotent
         [of ex_db2 "''intent-1''" ex_intent2 ex_sigA ex_env 0 0 None ex_db2]
       duplicate_signature_idempotent
         [of ex_db "''intent-1''" ex_intent ex_sigA ex_env 1 2 "Some False" ex_db1]
       h ex_sign_A
  show ?thesis by simp
qed

subsection \<open>C8: the external key hash\<close>

text \<open>
  Claim C8. For a 20-byte policy-contract address and a 12-byte salt, the external key
  hash is the hash of the key-type discriminant 3 (one ABI word) followed by the hash of
  the 32 bytes address-then-salt. The account is no argument of it: the key hash that
  \<open>encodeAuthorizeExternalExecute\<close> returns is the same for any two accounts.
\<close>

theorem externalKeyHash_derivation:
  "(isHexBytes multisig \<and> length (hexBytes multisig) = 20 \<and>
    isHexBytes salt12 \<and> length (hexBytes salt12) = 12 \<and>
    length (K (hexBytes multisig @ hexBytes salt12)) = 32 \<longrightarrow>
      computeExternalKeyHash K multisig salt12 =
        Some (bytesToHex (K (u256 3 @ K (hexBytes multisig @ hexBytes salt12)))) \<and>
      length (hexBytes multisig @ hexBytes salt12) = 32 \<and>
      length (u256 3 @ K (hexBytes multisig @ hexBytes salt12)) = 64) \<and>
   map_option auth_externalKeyHash (encodeAuthorizeExternalExecute K abi acct1 multisig salt12) =
   map_option auth_externalKeyHash (encodeAuthorizeExternalExecute K abi acct2 multisig salt12) \<and>
   (encodeAuthorizeExternalExecute K abi acct1 multisig salt12 = Some r \<longrightarrow>
      computeExternalKeyHash K multisig salt12 = Some (auth_externalKeyHash r) \<and>
      auth_to r = acct1)"
proof -
  have a: "computeExternalKeyHash K multisig salt12 =
        Some (bytesToHex (K (u256 3 @ K (hexBytes multisig @ hexBytes salt12)))) \<and>
      length (hexBytes multisig @ hexBytes salt12) = 32 \<and>
      length (u256 3 @ K (hexBytes multisig @ hexBytes salt12)) = 64"
    if "isHexBytes multisig" "length (hexBytes multisig) = 20"
       "isHexBytes salt12" "length (hexBytes salt12) = 12"
       "length (K (hexBytes multisig @ hexBytes salt12)) = 32"
    using that computeExternalKeyHash_wf [of multisig salt12 K]
    by (simp add: spec_externalKeyHash_def)
  have b: "map_option auth_externalKeyHash (encodeAuthorizeExternalExecute K abi acct1 multisig salt12) =
   map_option auth_externalKeyHash (encodeAuthorizeExternalExecute K abi acct2 multisig salt12)"
    by (simp add: encodeAuthorizeExternalExecute_def Let_def split: option.splits)
  have c: "computeExternalKeyHash K multisig salt12 = Some (auth_externalKeyHash r) \<and>
      auth_to r = acct1"
    if "encodeAuthorizeExternalExecute K abi acct1 multisig salt12 = Some r"
    using that
    by (auto simp add: encodeAuthorizeExternalExecute_def Let_def split: option.splits)
  from a b c show ?thesis by blast
qed

theorem externalKeyHash_derivation_witness:
  "isHexBytes ex_multisig \<and> length (hexBytes ex_multisig) = 20 \<and>
   isHexBytes ex_salt \<and> length (hexBytes ex_salt) = 12 \<and>
   length (K_ex (hexBytes ex_multisig @ hexBytes ex_salt)) = 32 \<and>
   computeExternalKeyHash K_ex ex_multisig ex_salt = Some (bytesToHex (replicate 32 0x40)) \<and>
   (\<exists>r. encodeAuthorizeExternalExecute K_ex ex_abi ex_account ex_multisig ex_salt = Some r \<and>
        auth_externalKeyHash r = bytesToHex (replicate 32 0x40) \<and> auth_to r = ex_account) \<and>
   map_option auth_externalKeyHash
     (encodeAuthorizeExternalExecute K_ex ex_abi ex_account ex_multisig ex_salt) =
   map_option auth_externalKeyHash
     (encodeAuthorizeExternalExecute K_ex ex_abi ex_account2 ex_multisig ex_salt)"
proof -
  have h: "isHexBytes ex_multisig" "length (hexBytes ex_multisig) = 20"
    "isHexBytes ex_salt" "length (hexBytes ex_salt) = 12"
    by (simp_all add: ex_multisig_def ex_salt_def isHexBytes_def hexBytes_def nibble_def)
  have l: "length (K_ex (hexBytes ex_multisig @ hexBytes ex_salt)) = 32"
    by (simp add: K_ex_def)
  have v: "K_ex (u256 3 @ K_ex (hexBytes ex_multisig @ hexBytes ex_salt)) = replicate 32 0x40"
    by (simp add: K_ex_def)
  have kh: "computeExternalKeyHash K_ex ex_multisig ex_salt = Some (bytesToHex (replicate 32 0x40))"
    using externalKeyHash_derivation
            [of ex_multisig ex_salt K_ex ex_abi ex_account ex_account2] h l v
    by simp
  have pk: "isHexBytes (externalPublicKey ex_multisig ex_salt)"
    using concatHex_wf [of "[ex_multisig, ex_salt]"] h
    by (simp add: externalPublicKey_def)
  have "wf_call K_ex \<lparr>call_to = ''0x0000000000000000000000000000000000000000'',
                        call_value = 0, call_data = externalPublicKey ex_multisig ex_salt\<rparr>"
    using pk
    by (simp add: wf_call_def isAddress_def addressRegex_def toLowerCase_def toLowerChar_def
        nibble_def)
  from encodeCall_wf [OF this] obtain e where
    "encodeCall K_ex \<lparr>call_to = ''0x0000000000000000000000000000000000000000'',
                       call_value = 0, call_data = externalPublicKey ex_multisig ex_salt\<rparr> = Some e"
    by blast
  then have "\<exists>r. encodeAuthorizeExternalExecute K_ex ex_abi ex_account ex_multisig ex_salt = Some r"
    using kh
    by (simp add: encodeAuthorizeExternalExecute_def Let_def ex_abi_def
        encodeAbiParameters_calls_def)
  then obtain r where r: "encodeAuthorizeExternalExecute K_ex ex_abi ex_account ex_multisig ex_salt = Some r"
    by blast
  from externalKeyHash_derivation
         [of ex_multisig ex_salt K_ex ex_abi ex_account ex_account2 r] r kh h l v
  show ?thesis by auto
qed

subsection \<open>C9: the sequence of the nonce check\<close>

text \<open>
  Claim C9. The submit route reads the nonce of sequence 0 and nothing else of the nonce
  space: its result is the same under any change of the nonces of other sequences, and
  its response and broadcast are the same whatever sequence key the intent stores. The
  create route stores the nonce of the requested sequence. So an intent of a nonzero
  sequence whose own nonce has not moved is refused as soon as the nonce of sequence 0
  differs from it.
\<close>

theorem submit_checks_sequence_zero:
  "((\<forall>a. g a 0 = getNonce env a 0) \<longrightarrow>
      submit_POST K (env\<lparr>getNonce := g\<rparr>) db k = submit_POST K env db k) \<and>
   (db k = Some i \<longrightarrow>
      response (submit_POST K env (db(k \<mapsto> i\<lparr>seqKey := sk\<rparr>)) k) = response (submit_POST K env db k) \<and>
      sent (submit_POST K env (db(k \<mapsto> i\<lparr>seqKey := sk\<rparr>)) k) = sent (submit_POST K env db k)) \<and>
   (create_POST env db0 body = (Created cid d t os, db) \<longrightarrow>
      (\<exists>c. db cid = Some c \<and>
           seqKey c = (case body_seqKey body of None \<Rightarrow> 0 | Some s \<Rightarrow> s) \<and>
           getNonce env (account c) (seqKey c) = Some (nonce c))) \<and>
   (db k = Some i \<and> threshold i \<le> length (signatures i) \<and> walletClient env \<noteq> None \<and>
    executionData K i \<noteq> None \<and> getNonce env (account i) (seqKey i) = Some (nonce i) \<and>
    getNonce env (account i) 0 = Some n0 \<and> n0 \<noteq> nonce i \<longrightarrow>
      submit_POST K env db k = \<lparr>response = NonceMismatch (nonce i) n0, store = db, sent = None\<rparr>)"
proof -
  have a: "(\<forall>a. g a 0 = getNonce env a 0) \<longrightarrow>
      submit_POST K (env\<lparr>getNonce := g\<rparr>) db k = submit_POST K env db k"
    using submit_POST_getNonce_zero [where g = g and env = env and db = db and k = k and K = K]
    by blast
  have c: "create_POST env db0 body = (Created cid d t os, db) \<longrightarrow>
      (\<exists>c. db cid = Some c \<and>
           seqKey c = (case body_seqKey body of None \<Rightarrow> 0 | Some s \<Rightarrow> s) \<and>
           getNonce env (account c) (seqKey c) = Some (nonce c))"
    using create_POST_created [of env db0 body cid d t os db] by auto
  have m: "db k = Some i \<and> threshold i \<le> length (signatures i) \<and> walletClient env \<noteq> None \<and>
    executionData K i \<noteq> None \<and> getNonce env (account i) (seqKey i) = Some (nonce i) \<and>
    getNonce env (account i) 0 = Some n0 \<and> n0 \<noteq> nonce i \<longrightarrow>
      submit_POST K env db k = \<lparr>response = NonceMismatch (nonce i) n0, store = db, sent = None\<rparr>"
    using submit_POST_mismatch [where db = db and k = k and i = i and env = env and cur = n0
        and K = K]
    by auto
  from a c m
    submit_POST_seqKey [where db = db and k = k and i = i and env = env and sk = sk and K = K]
  show ?thesis
    by blast
qed

theorem submit_checks_sequence_zero_witness:
  "ex_db_seq1 ''intent-1'' = Some ex_intent_seq1 \<and> seqKey ex_intent_seq1 = 1 \<and>
   threshold ex_intent_seq1 \<le> length (signatures ex_intent_seq1) \<and>
   walletClient ex_env \<noteq> None \<and> executionData K_ex ex_intent_seq1 \<noteq> None \<and>
   getNonce ex_env (account ex_intent_seq1) (seqKey ex_intent_seq1) = Some (nonce ex_intent_seq1) \<and>
   getNonce ex_env (account ex_intent_seq1) 0 = Some 7 \<and> 7 \<noteq> nonce ex_intent_seq1 \<and>
   submit_POST K_ex ex_env ex_db_seq1 ''intent-1'' =
     \<lparr>response = NonceMismatch 18446744073709551616 7, store = ex_db_seq1, sent = None\<rparr> \<and>
   create_POST ex_env Map.empty (ex_body\<lparr>body_seqKey := Some 1\<rparr>) =
     (Created ''intent-1'' ex_digest 2 [ex_ownerA, ex_ownerB, ex_ownerC],
      Map.empty(''intent-1'' \<mapsto> ex_intent\<lparr>seqKey := 1, nonce := 18446744073709551616\<rparr>)) \<and>
   (\<forall>a. ex_getNonce_moved a 0 = getNonce ex_env a 0) \<and>
   ex_getNonce_moved ex_account 1 \<noteq> getNonce ex_env ex_account 1 \<and>
   submit_POST K_ex (ex_env\<lparr>getNonce := ex_getNonce_moved\<rparr>) ex_db_seq1 ''intent-1'' =
     submit_POST K_ex ex_env ex_db_seq1 ''intent-1'' \<and>
   response (submit_POST K_ex ex_env (ex_db_seq1(''intent-1'' \<mapsto> ex_intent_seq1\<lparr>seqKey := 0\<rparr>))
               ''intent-1'') =
     NonceMismatch 18446744073709551616 7"
proof -
  have wf: "wf_intent K_ex ex_intent_seq1"
    using ex_wf by (simp add: wf_intent_def ex_intent_seq1_def)
  have h: "ex_db_seq1 ''intent-1'' = Some ex_intent_seq1" "seqKey ex_intent_seq1 = 1"
    "threshold ex_intent_seq1 \<le> length (signatures ex_intent_seq1)"
    "walletClient ex_env \<noteq> None"
    "getNonce ex_env (account ex_intent_seq1) (seqKey ex_intent_seq1) = Some (nonce ex_intent_seq1)"
    "getNonce ex_env (account ex_intent_seq1) 0 = Some 7" "7 \<noteq> nonce ex_intent_seq1"
    by (simp_all add: ex_db_seq1_def ex_intent_seq1_def)
  have e: "executionData K_ex ex_intent_seq1 \<noteq> None"
    using executionData_wf [OF wf] by auto
  have cr: "create_POST ex_env Map.empty (ex_body\<lparr>body_seqKey := Some 1\<rparr>) =
     (Created ''intent-1'' ex_digest 2 [ex_ownerA, ex_ownerB, ex_ownerC],
      Map.empty(''intent-1'' \<mapsto> ex_intent\<lparr>seqKey := 1, nonce := 18446744073709551616\<rparr>))"
    by (simp add: create_POST_def ex_env_def ex_body_def Let_def upsertIntent_def Number_def
        ex_intent_def)
  have g: "\<forall>a. ex_getNonce_moved a 0 = getNonce ex_env a 0"
    "ex_getNonce_moved ex_account 1 \<noteq> getNonce ex_env ex_account 1"
    by (simp_all add: ex_getNonce_moved_def)
  from submit_checks_sequence_zero
         [where db = ex_db_seq1 and k = "''intent-1''" and i = ex_intent_seq1 and env = ex_env
            and ?n0.0 = 7 and g = ex_getNonce_moved and ?db0.0 = Map.empty
            and body = "ex_body\<lparr>body_seqKey := Some 1\<rparr>" and cid = "''intent-1''"
            and d = ex_digest and t = 2 and os = "[ex_ownerA, ex_ownerB, ex_ownerC]" and sk = 0
            and K = K_ex]
       h e cr g
  show ?thesis by simp
qed

subsection \<open>C10: which bytes are stored\<close>

text \<open>
  Claim C10. When the signature as received is invalid and the sign route nevertheless
  stores a signature, the stored bytes are the flipped variant, which differs from what
  the caller sent, which the verification entry point accepted, and which the submit
  route will aggregate. In a store where every stored signature is validated, every
  stored signature is validated after the sign route has run.
\<close>

theorem stored_signature_is_validated_variant:
  "(db k = Some i \<and> \<not> res_ok (tryOnce env (account i) (digest i) w) \<and>
    sign_POST env db k w = (SignOk n M (Some r), db') \<longrightarrow>
      (\<exists>i' okh. db' k = Some i' \<and>
         signatures i' = signatures i @ [\<lparr>ownerKeyHash = okh, sig = flipped w, at = now env\<rparr>] \<and>
         aggregated i' = encodeAbiParameters_bytesArray (map sig (signatures i) @ [flipped w]) \<and>
         flipped w \<noteq> w \<and>
         unwrapAndValidateSignature env (account i) (digest i) (flipped w) = Some (True, okh))) \<and>
   (store_ok db \<and> all_validated env db \<longrightarrow> all_validated env (snd (sign_POST env db k w)))"
proof -
  let ?c = "fst (validateWrappedSignature env (account i) (digest i) w)"
  have "\<exists>i' okh. db' k = Some i' \<and>
         signatures i' = signatures i @ [\<lparr>ownerKeyHash = okh, sig = flipped w, at = now env\<rparr>] \<and>
         aggregated i' = encodeAbiParameters_bytesArray (map sig (signatures i) @ [flipped w]) \<and>
         flipped w \<noteq> w \<and>
         unwrapAndValidateSignature env (account i) (digest i) (flipped w) = Some (True, okh)"
    if look: "db k = Some i" and bad: "\<not> res_ok (tryOnce env (account i) (digest i) w)"
      and res: "sign_POST env db k w = (SignOk n M (Some r), db')"
  proof -
    from look res have ok: "res_ok ?c"
      and db': "db' = setIntent (intent_id i) (\<lambda>j. j\<lparr>signatures := appended env i w\<rparr>)
                        (db(k \<mapsto> i\<lparr>signatures := appended env i w\<rparr>))"
      by (auto simp add: sign_POST_def getIntent_def Let_def appended_def split: if_splits)
    from ok bad have sg: "res_sig ?c = flipped w"
      by (simp add: validate_sig_cases)
    from validate_ok_validated [OF ok] sg
    have va: "unwrapAndValidateSignature env (account i) (digest i) (flipped w)
                = Some (True, res_ownerKh ?c)"
      by simp
    from db' look have "db' k = Some (i\<lparr>signatures := appended env i w\<rparr>)"
      by (simp add: appended_store_at_k)
    with sg va flipped_neq [of w] show ?thesis
      by (simp add: appended_def aggregated_def)
  qed
  with sign_POST_all_validated [of db env k w] show ?thesis
    by blast
qed

theorem stored_signature_is_validated_variant_witness:
  "ex_db ''intent-1'' = Some ex_intent \<and>
   \<not> res_ok (tryOnce ex_env (account ex_intent) (digest ex_intent) ex_sigLong00) \<and>
   sign_POST ex_env ex_db ''intent-1'' ex_sigLong00 =
     (SignOk 1 2 (Some False),
      ex_db(''intent-1'' \<mapsto> ex_intent\<lparr>signatures :=
         [\<lparr>ownerKeyHash = ex_ownerC, sig = ex_sigLong01, at = 1700000000000\<rparr>]\<rparr>)) \<and>
   ex_sigLong01 \<noteq> ex_sigLong00 \<and>
   unwrapAndValidateSignature ex_env (account ex_intent) (digest ex_intent) ex_sigLong01
     = Some (True, ex_ownerC) \<and>
   store_ok ex_db \<and> all_validated ex_env ex_db \<and>
   all_validated ex_env (snd (sign_POST ex_env ex_db ''intent-1'' ex_sigLong00))"
proof -
  let ?db' = "ex_db(''intent-1'' \<mapsto> ex_intent\<lparr>signatures :=
         [\<lparr>ownerKeyHash = ex_ownerC, sig = ex_sigLong01, at = 1700000000000\<rparr>]\<rparr>)"
  have bad: "\<not> res_ok (tryOnce ex_env (account ex_intent) (digest ex_intent) ex_sigLong00)"
    by (simp add: ex_tryOnce_long)
  have app: "appended ex_env ex_intent ex_sigLong00 =
               [\<lparr>ownerKeyHash = ex_ownerC, sig = ex_sigLong01, at = 1700000000000\<rparr>]"
    by (simp add: appended_def ex_validate_long)
  have "sign_POST ex_env ex_db ''intent-1'' ex_sigLong00 =
          (SignOk (length (appended ex_env ex_intent ex_sigLong00)) (threshold ex_intent)
             (Some (threshold ex_intent \<le> length (appended ex_env ex_intent ex_sigLong00))),
           setIntent (intent_id ex_intent) (\<lambda>j. j\<lparr>signatures := appended ex_env ex_intent ex_sigLong00\<rparr>)
             (ex_db(''intent-1'' \<mapsto> ex_intent\<lparr>signatures := appended ex_env ex_intent ex_sigLong00\<rparr>)))"
    by (rule sign_POST_append) (simp_all add: ex_validate_long authorized_def alreadySigned_def)
  then have run: "sign_POST ex_env ex_db ''intent-1'' ex_sigLong00 = (SignOk 1 2 (Some False), ?db')"
    by (simp add: app setIntent_own_key)
  have so: "store_ok ex_db"
    by (simp add: store_ok_def ex_db_def)
  have av: "all_validated ex_env ex_db"
    by (simp add: all_validated_def ex_db_def)
  from stored_signature_is_validated_variant
         [of ex_db "''intent-1''" ex_intent ex_env ex_sigLong00 1 2 False ?db']
       bad run so av
  show ?thesis
    by (auto simp add: flipped_ex_sigLong00 ex_tryOnce_long tryOnce_ok_iff)
qed

end
